theory Spec2Isabelle
  imports Main
begin

section \<open>Python strings\<close>

text \<open>
  A Python \<open>str\<close> is a sequence of Unicode code points. A code point is modelled as a
  natural number and a string as a list of them; \<open>ustr\<close> turns an ASCII literal into
  such a list.
\<close>

type_synonym pychar = nat
type_synonym pystr = "pychar list"

definition ustr :: "string \<Rightarrow> pystr" where
  "ustr s = map of_char s"

definition comma :: pychar where
  "comma = 44"

text \<open>
  The code points that \<open>str.strip()\<close> removes when called without an argument:
  those for which \<open>str.isspace\<close> holds.
\<close>

definition is_space :: "pychar \<Rightarrow> bool" where
  "is_space c = (c \<in> set [9, 10, 11, 12, 13, 28, 29, 30, 31, 32, 133, 160, 5760,
       8192, 8193, 8194, 8195, 8196, 8197, 8198, 8199, 8200, 8201, 8202,
       8232, 8233, 8239, 8287, 12288])"

definition strip :: "pystr \<Rightarrow> pystr" where
  "strip s = rev (dropWhile is_space (rev (dropWhile is_space s)))"

text \<open>\<open>s.split(sep)\<close> for a one-character separator: one piece more than separators.\<close>

fun split :: "pychar \<Rightarrow> pystr \<Rightarrow> pystr list" where
  "split sep [] = [[]]"
| "split sep (c # cs) =
     (if c = sep then [] # split sep cs
      else (case split sep cs of
              p # ps \<Rightarrow> (c # p) # ps
            | [] \<Rightarrow> [[c]]))"

text \<open>\<open>s.split(sep, 1)\<close> on a string that contains the separator: the two pieces.\<close>

definition split_once :: "pychar \<Rightarrow> pystr \<Rightarrow> pystr \<times> pystr" where
  "split_once sep s = (takeWhile (\<lambda>c. c \<noteq> sep) s, tl (dropWhile (\<lambda>c. c \<noteq> sep) s))"

fun join :: "pystr \<Rightarrow> pystr list \<Rightarrow> pystr" where
  "join sep [] = []"
| "join sep [p] = p"
| "join sep (p # q # ps) = p @ sep @ join sep (q # ps)"

text \<open>The substring test \<open>h in s\<close>.\<close>

definition startswith :: "pystr \<Rightarrow> pystr \<Rightarrow> bool" where
  "startswith s h = (take (length h) s = h)"

fun py_in :: "pystr \<Rightarrow> pystr \<Rightarrow> bool" where
  "py_in h [] = (h = [])"
| "py_in h (c # cs) = (startswith (c # cs) h \<or> py_in h cs)"


section \<open>Resource Filter\<close>

definition BLOCK_HOST_PATTERNS :: "pystr list" where
  "BLOCK_HOST_PATTERNS =
     [ustr ''tile.openstreetmap.org'',
      ustr ''tiles.openstreetmap.org'',
      ustr ''basemaps.cartocdn.com'',
      ustr ''cartocdn.com'',
      ustr ''fastly.net'',
      ustr ''gstatic.com'',
      ustr ''googleapis.com'']"

definition BLOCK_RESOURCE_TYPES :: "pystr set" where
  "BLOCK_RESOURCE_TYPES = {ustr ''image'', ustr ''font'', ustr ''media''}"

definition should_block :: "pystr \<Rightarrow> bool" where
  "should_block url = list_ex (\<lambda>h. py_in h url) BLOCK_HOST_PATTERNS"

record request =
  resource_type :: pystr
  url :: pystr

datatype route_action = Abort | Continue

text \<open>The handler that \<open>_block_unnecessary_requests\<close> installs on every route.\<close>

definition route_handler :: "request \<Rightarrow> route_action" where
  "route_handler req =
     (if resource_type req \<in> BLOCK_RESOURCE_TYPES \<or> should_block (url req)
      then Abort else Continue)"


section \<open>Card Extractor\<close>

text \<open>
  What \<open>parse_cards\<close> reads of one \<open>div[role="listitem"]\<close> node: the inner text of
  its \<open>span.name\<close>, \<open>span.type\<close> and \<open>p.coords\<close> sub-nodes, \<open>None\<close> where
  \<open>query_selector\<close> finds no such node.
\<close>

record card =
  span_name :: "pystr option"
  span_type :: "pystr option"
  p_coords :: "pystr option"

record place =
  Name :: pystr
  Address :: pystr
  Country :: pystr
  Type :: pystr
  Latitude :: pystr
  Longitude :: pystr

text \<open>The list comprehension \<open>[p.strip() for p in full_name.split(",") if p.strip()]\<close>.\<close>

definition name_parts :: "pystr \<Rightarrow> pystr list" where
  "name_parts full_name =
     map strip (filter (\<lambda>p. strip p \<noteq> []) (split comma full_name))"

definition parse_coords :: "pystr option \<Rightarrow> pystr \<times> pystr" where
  "parse_coords coords_el =
     (case coords_el of
        None \<Rightarrow> ([], [])
      | Some t \<Rightarrow>
          (let txt = strip t in
           if comma \<in> set txt
           then (case split_once comma txt of (a, b) \<Rightarrow> (strip a, strip b))
           else ([], [])))"

text \<open>The body of the loop for a card that has a \<open>span.name\<close> node with text \<open>t\<close>.\<close>

definition card_record :: "pystr \<Rightarrow> card \<Rightarrow> place" where
  "card_record t c =
     (let full_name = strip t;
          parts = name_parts full_name;
          name = (case parts of [] \<Rightarrow> [] | p # _ \<Rightarrow> p);
          country = (if length parts > 1 then last parts else []);
          address = (if length parts > 2 then join (ustr '', '') (butlast (tl parts)) else []);
          btype = (case span_type c of None \<Rightarrow> [] | Some ty \<Rightarrow> strip ty);
          (lat, lon) = parse_coords (p_coords c)
      in \<lparr>Name = name, Address = address, Country = country,
          Type = btype, Latitude = lat, Longitude = lon\<rparr>)"

text \<open>The \<open>for card in cards\<close> loop, with \<open>results\<close> as the accumulator.\<close>

fun parse_cards_loop :: "card list \<Rightarrow> place list \<Rightarrow> place list" where
  "parse_cards_loop [] results = results"
| "parse_cards_loop (c # cards) results =
     (case span_name c of
        None \<Rightarrow> parse_cards_loop cards results
      | Some t \<Rightarrow> parse_cards_loop cards (results @ [card_record t c]))"

definition parse_cards :: "card list \<Rightarrow> place list" where
  "parse_cards cards = parse_cards_loop cards []"

text \<open>
  Two predicates for stating properties of labels: a string of whitespace only, and a
  segment as \<open>name_parts\<close> returns it (non-empty, without a comma, with no whitespace
  at either end).
\<close>

definition blank :: "pystr \<Rightarrow> bool" where
  "blank w = list_all is_space w"

definition trimmed_segment :: "pystr \<Rightarrow> bool" where
  "trimmed_segment a =
     (a \<noteq> [] \<and> comma \<notin> set a \<and> \<not> is_space (hd a) \<and> \<not> is_space (last a))"


text \<open>
  A label is cut by its commas into pieces. A piece is described by the whitespace before,
  its core and the whitespace after; the core is empty (a piece of whitespace only) or a
  segment.
\<close>

type_synonym piece = "pystr \<times> pystr \<times> pystr"

definition padded :: "piece \<Rightarrow> pystr" where
  "padded p = (case p of (w, a, w') \<Rightarrow> w @ a @ w')"

definition core :: "piece \<Rightarrow> pystr" where
  "core p = (case p of (w, a, w') \<Rightarrow> a)"

definition piece_ok :: "piece \<Rightarrow> bool" where
  "piece_ok p = (case p of (w, a, w') \<Rightarrow> blank w \<and> blank w' \<and> (a = [] \<or> trimmed_segment a))"


section \<open>The browsing session\<close>

text \<open>
  The exceptions the controller tells apart: Playwright's \<open>TimeoutError\<close>, Python's
  \<open>RuntimeError\<close>, and every other \<open>Exception\<close> (Playwright's \<open>Error\<close> for a
  failed navigation or a closed target, \<open>OSError\<close> from the file system, ...). Each
  carries its message. Exceptions outside \<open>Exception\<close> (\<open>KeyboardInterrupt\<close>,
  \<open>SystemExit\<close>) are not modelled.
\<close>

datatype exn = PlaywrightTimeoutError pystr | RuntimeError pystr | OtherError pystr

fun exn_str :: "exn \<Rightarrow> pystr" where
  "exn_str (PlaywrightTimeoutError m) = m"
| "exn_str (RuntimeError m) = m"
| "exn_str (OtherError m) = m"

text \<open>\<open>str(n)\<close> for an integer: its decimal digits, with a minus sign when negative.\<close>

function str_nat :: "nat \<Rightarrow> pystr" where
  "str_nat n = (if n < 10 then [48 + n] else str_nat (n div 10) @ [48 + n mod 10])"
  by pat_completeness auto
termination
  by (relation "measure (\<lambda>n. n)") auto

declare str_nat.simps [simp del]

definition str_int :: "int \<Rightarrow> pystr" where
  "str_int i = (if i < 0 then 45 # str_nat (nat (- i)) else str_nat (nat i))"

text \<open>
  Every call the program makes on the outside world: the Playwright driver, the browser,
  the page, the output file and the console. The page is configured once
  (\<open>set_default_timeout\<close>, \<open>set_default_navigation_timeout\<close>, \<open>route\<close>);
  \<open>QuerySelectorAll\<close> stands for all the DOM reads of one \<open>parse_cards\<close> call.
\<close>

datatype call =
    PlaywrightStart
  | PlaywrightStop
  | Launch bool
  | NewContext
  | NewPage
  | SetDefaultTimeout int
  | SetDefaultNavigationTimeout int
  | Route
  | Goto pystr int
  | WaitForSelector pystr pystr int
  | WaitForTimeout int
  | QuerySelectorAll
  | Screenshot pystr
  | Reload int
  | BrowserClose
  | Mkdir pystr
  | OpenWrite pystr
  | WriteHeader "pystr list"
  | WriteRows "place list"
  | FileClose
  | Print pystr

text \<open>
  A session answers every call: given the calls made so far, \<open>raises\<close> tells whether the
  call raises and what, and \<open>dom_cards\<close> gives the result cards that are in the DOM at that
  moment. Any deterministic mock session is of this form.
\<close>

record session =
  raises :: "call list \<Rightarrow> call \<Rightarrow> exn option"
  dom_cards :: "call list \<Rightarrow> card list"

text \<open>
  A computation takes the log of the calls made so far, each with its outcome, and
  returns its result (an exception or a value) and the extended log.
\<close>

type_synonym event = "call \<times> exn option"
type_synonym 'a io = "event list \<Rightarrow> (exn + 'a) \<times> event list"

definition return :: "'a \<Rightarrow> 'a io" where
  "return x lg = (Inr x, lg)"

definition raise :: "exn \<Rightarrow> 'a io" where
  "raise e lg = (Inl e, lg)"

definition bind :: "'a io \<Rightarrow> ('a \<Rightarrow> 'b io) \<Rightarrow> 'b io" where
  "bind m f lg = (case m lg of (Inl e, lg') \<Rightarrow> (Inl e, lg') | (Inr x, lg') \<Rightarrow> f x lg')"

definition perform :: "session \<Rightarrow> call \<Rightarrow> unit io" where
  "perform s c lg =
     (case raises s (map fst lg) c of
        None \<Rightarrow> (Inr (), lg @ [(c, None)])
      | Some e \<Rightarrow> (Inl e, lg @ [(c, Some e)]))"

text \<open>\<open>try: m  except Exception: pass\<close>\<close>

definition swallow :: "unit io \<Rightarrow> unit io" where
  "swallow m lg = (case m lg of (r, lg') \<Rightarrow> (Inr (), lg'))"

text \<open>
  \<open>with ... as x: body\<close>: enter, run the body, and leave whether the body returned or
  raised; an exception raised on leaving replaces the body's result.
\<close>

definition with_block :: "session \<Rightarrow> call \<Rightarrow> call \<Rightarrow> 'a io \<Rightarrow> 'a io" where
  "with_block s enter leave body lg =
     (case perform s enter lg of
        (Inl e, lg1) \<Rightarrow> (Inl e, lg1)
      | (Inr u, lg1) \<Rightarrow>
          (case body lg1 of
             (r, lg2) \<Rightarrow>
               (case perform s leave lg2 of
                  (Inl e, lg3) \<Rightarrow> (Inl e, lg3)
                | (Inr u, lg3) \<Rightarrow> (r, lg3))))"


section \<open>Acquisition Controller\<close>

definition SEARCH_URL :: pystr where
  "SEARCH_URL = ustr ''https://nominatim.openstreetmap.org/ui/search.html?q=Workshop&countrycodes=ca&limit=50''"

definition OUT_CSV :: pystr where
  "OUT_CSV = ustr ''output/Workshop&country.csv''"

definition DEBUG_HEADED :: bool where
  "DEBUG_HEADED = False"

text \<open>\<open>parse_cards(page)\<close>: the DOM is read, and may raise, before the cards are parsed.\<close>

definition page_parse_cards :: "session \<Rightarrow> place list io" where
  "page_parse_cards s lg =
     bind (perform s QuerySelectorAll) (\<lambda>u. return (parse_cards (dom_cards s (map fst lg)))) lg"

definition debug_screenshot :: "session \<Rightarrow> pystr \<Rightarrow> unit io" where
  "debug_screenshot s path = (if DEBUG_HEADED then perform s (Screenshot path) else return ())"

text \<open>The body of the \<open>try\<close> of one attempt; \<open>Inr\<close> is the function's \<open>return data\<close>.\<close>

definition attempt_body :: "session \<Rightarrow> pystr \<Rightarrow> int \<Rightarrow> place list io" where
  \<open>attempt_body s page_url timeout_ms =
     bind (perform s (Goto page_url timeout_ms)) (\<lambda>u.
     bind (perform s (WaitForSelector (ustr ''#searchresults'') (ustr ''attached'') timeout_ms)) (\<lambda>u.
     bind (perform s (WaitForSelector (ustr ''div[role="listitem"]'') (ustr ''visible'') timeout_ms)) (\<lambda>u.
     bind (perform s (WaitForTimeout 500)) (\<lambda>u.
     bind (page_parse_cards s) (\<lambda>data.
     if data \<noteq> [] then
       bind (debug_screenshot s (ustr ''output/page_ok.png'')) (\<lambda>u.
       bind (perform s BrowserClose) (\<lambda>u.
       return data))
     else
       bind (perform s (WaitForTimeout 1500)) (\<lambda>u.
       bind (page_parse_cards s) (\<lambda>data.
       if data \<noteq> [] then
         bind (debug_screenshot s (ustr ''output/page_ok2.png'')) (\<lambda>u.
         bind (perform s BrowserClose) (\<lambda>u.
         return data))
       else
         raise (RuntimeError (ustr ''No cards parsed (empty result).'')))))))))\<close>

text \<open>\<open>except (PlaywrightTimeoutError, RuntimeError) as e\<close>\<close>

fun caught :: "exn \<Rightarrow> bool" where
  "caught (PlaywrightTimeoutError m) = True"
| "caught (RuntimeError m) = True"
| "caught (OtherError m) = False"

definition error_snapshot_path :: "int \<Rightarrow> pystr" where
  "error_snapshot_path attempt =
     ustr ''output/page_error_attempt_'' @ str_int attempt @ ustr ''.png''"

text \<open>The body of the \<open>except\<close> clause after \<open>last_error = e\<close>.\<close>

definition recover :: "session \<Rightarrow> int \<Rightarrow> int \<Rightarrow> unit io" where
  "recover s attempt timeout_ms =
     bind (swallow (perform s (Screenshot (error_snapshot_path attempt)))) (\<lambda>u.
     swallow (perform s (Reload timeout_ms)))"

text \<open>
  The \<open>for attempt in range(1, max_retries + 1)\<close> loop over the attempts still to make,
  with \<open>last_error\<close>. It ends by the \<open>return\<close> inside an attempt, by an exception that
  the \<open>except\<close> clause does not catch, or by running out of attempts.
\<close>

datatype loop_exit = Returned "place list" | Exhausted "exn option"

fun retry_loop ::
  "session \<Rightarrow> pystr \<Rightarrow> int \<Rightarrow> int list \<Rightarrow> exn option \<Rightarrow> loop_exit io" where
  "retry_loop s page_url timeout_ms [] last_error lg = (Inr (Exhausted last_error), lg)"
| "retry_loop s page_url timeout_ms (attempt # rest) last_error lg =
     (case attempt_body s page_url timeout_ms lg of
        (Inr data, lg') \<Rightarrow> (Inr (Returned data), lg')
      | (Inl e, lg') \<Rightarrow>
          if caught e
          then bind (recover s attempt timeout_ms)
                 (\<lambda>u. retry_loop s page_url timeout_ms rest (Some e)) lg'
          else (Inl e, lg'))"

definition failed_message :: "int \<Rightarrow> exn option \<Rightarrow> pystr" where
  "failed_message max_retries last_error =
     ustr ''Failed after '' @ str_int max_retries @ ustr '' attempts: '' @
     (case last_error of None \<Rightarrow> ustr ''None'' | Some e \<Rightarrow> exn_str e)"

definition scrape_with_playwright :: "session \<Rightarrow> pystr \<Rightarrow> int \<Rightarrow> int \<Rightarrow> place list io" where
  "scrape_with_playwright s page_url max_retries timeout_ms =
     with_block s PlaywrightStart PlaywrightStop
       (bind (perform s (Launch (\<not> DEBUG_HEADED))) (\<lambda>u.
        bind (perform s NewContext) (\<lambda>u.
        bind (perform s NewPage) (\<lambda>u.
        bind (perform s (SetDefaultTimeout timeout_ms)) (\<lambda>u.
        bind (perform s (SetDefaultNavigationTimeout timeout_ms)) (\<lambda>u.
        bind (perform s Route) (\<lambda>u.
        bind (retry_loop s page_url timeout_ms [1..max_retries] None) (\<lambda>ex.
        case ex of
          Returned data \<Rightarrow> return data
        | Exhausted last_error \<Rightarrow>
            bind (perform s BrowserClose) (\<lambda>u.
            raise (RuntimeError (failed_message max_retries last_error)))))))))))"


section \<open>Output and entry point\<close>

definition CSV_FIELDS :: "pystr list" where
  "CSV_FIELDS = [ustr ''Name'', ustr ''Address'', ustr ''Country'', ustr ''Type'',
                 ustr ''Latitude'', ustr ''Longitude'']"

text \<open>
  \<open>path.parent\<close> of a \<open>Path\<close>, written as its string: the part before the last slash,
  \<open>.\<close> for a path without a slash and \<open>/\<close> for a file in the root directory. A
  \<open>Path\<close> is normalised when it is built, so its string has no doubled or trailing
  slash.
\<close>

definition slash :: pychar where
  "slash = 47"

definition path_parent :: "pystr \<Rightarrow> pystr" where
  "path_parent path =
     (if slash \<notin> set path then ustr ''.''
      else (let d = rev (tl (dropWhile (\<lambda>c. c \<noteq> slash) (rev path)))
            in if d = [] then ustr ''/'' else d))"

definition save_csv :: "session \<Rightarrow> place list \<Rightarrow> pystr \<Rightarrow> unit io" where
  "save_csv s data path =
     bind (perform s (Mkdir (path_parent path))) (\<lambda>u.
     with_block s (OpenWrite path) FileClose
       (bind (perform s (WriteHeader CSV_FIELDS)) (\<lambda>u.
        perform s (WriteRows data))))"

definition saved_summary :: "place list \<Rightarrow> pystr" where
  "saved_summary data =
     ustr ''Saved '' @ str_int (int (length data)) @ ustr '' records to '' @ OUT_CSV"

definition main :: "session \<Rightarrow> unit io" where
  "main s =
     bind (scrape_with_playwright s SEARCH_URL 3 70000) (\<lambda>data.
     bind (save_csv s data OUT_CSV) (\<lambda>u.
     perform s (Print (saved_summary data))))"


section \<open>Observations on a log\<close>

text \<open>
  What the properties below read off a log: the number of \<open>browser.close()\<close> calls and
  of driver shutdowns that succeeded, the number of navigations, whether an exception was
  raised by some call, and the calls on the output file.
\<close>

definition closes :: "event list \<Rightarrow> nat" where
  "closes lg = length (filter (\<lambda>ev. ev = (BrowserClose, None)) lg)"

definition stops :: "event list \<Rightarrow> nat" where
  "stops lg = length (filter (\<lambda>ev. ev = (PlaywrightStop, None)) lg)"

text \<open>Calls of \<open>browser.close()\<close> and driver shutdowns, whatever their outcome.\<close>

definition close_calls :: "event list \<Rightarrow> nat" where
  "close_calls lg = length (filter (\<lambda>ev. fst ev = BrowserClose) lg)"

definition stop_calls :: "event list \<Rightarrow> nat" where
  "stop_calls lg = length (filter (\<lambda>ev. fst ev = PlaywrightStop) lg)"

fun is_goto :: "call \<Rightarrow> bool" where
  "is_goto (Goto u t) = True"
| "is_goto c = False"

definition gotos :: "event list \<Rightarrow> nat" where
  "gotos lg = length (filter is_goto (map fst lg))"

definition raised_in :: "exn \<Rightarrow> event list \<Rightarrow> bool" where
  "raised_in e lg = list_ex (\<lambda>ev. snd ev = Some e) lg"

fun is_file_call :: "call \<Rightarrow> bool" where
  "is_file_call (Mkdir p) = True"
| "is_file_call (OpenWrite p) = True"
| "is_file_call (WriteHeader fs) = True"
| "is_file_call (WriteRows rs) = True"
| "is_file_call FileClose = True"
| "is_file_call c = False"

definition file_calls :: "event list \<Rightarrow> call list" where
  "file_calls lg = filter is_file_call (map fst lg)"

text \<open>The two calls of the \<open>except\<close> clause, whose failures are discarded.\<close>

fun is_recovery_call :: "call \<Rightarrow> bool" where
  "is_recovery_call (Screenshot p) = True"
| "is_recovery_call (Reload t) = True"
| "is_recovery_call c = False"

text \<open>The error an attempt raises when both of its extractions are empty.\<close>

definition NO_CARDS :: exn where
  "NO_CARDS = RuntimeError (ustr ''No cards parsed (empty result).'')"

text \<open>
  \<open>all_succeed s h cs\<close>: after the calls \<open>h\<close>, the session lets the calls \<open>cs\<close> pass one
  after the other; \<open>succeeded cs\<close> is what they add to the log.
\<close>

fun all_succeed :: "session \<Rightarrow> call list \<Rightarrow> call list \<Rightarrow> bool" where
  "all_succeed s h [] = True"
| "all_succeed s h (c # cs) = (raises s h c = None \<and> all_succeed s (h @ [c]) cs)"

definition succeeded :: "call list \<Rightarrow> event list" where
  "succeeded cs = map (\<lambda>c. (c, None)) cs"

text \<open>
  The calls of a run in the order of the source: session setup, the waits of one attempt up
  to its first extraction, the first extraction with the grace wait, and \<open>save_csv\<close>
  with the summary line.
\<close>

definition setup_calls :: "int \<Rightarrow> call list" where
  "setup_calls t = [PlaywrightStart, Launch (\<not> DEBUG_HEADED), NewContext, NewPage,
                    SetDefaultTimeout t, SetDefaultNavigationTimeout t, Route]"

definition wait_calls :: "pystr \<Rightarrow> int \<Rightarrow> call list" where
  \<open>wait_calls u t =
     [Goto u t,
      WaitForSelector (ustr ''#searchresults'') (ustr ''attached'') t,
      WaitForSelector (ustr ''div[role="listitem"]'') (ustr ''visible'') t,
      WaitForTimeout 500]\<close>

definition grace_calls :: "call list" where
  "grace_calls = [QuerySelectorAll, WaitForTimeout 1500]"

definition save_calls :: "place list \<Rightarrow> call list" where
  "save_calls data = [Mkdir (ustr ''output''), OpenWrite OUT_CSV, WriteHeader CSV_FIELDS,
                      WriteRows data, FileClose, Print (saved_summary data)]"




section \<open>Auxiliary notions of the proofs\<close>

text \<open>
  The body of the \<open>with sync_playwright()\<close> block of \<open>scrape_with_playwright\<close> on its
  own, the calls it makes before the loop, and a sequence of calls followed by a
  computation.
\<close>

definition session_body :: "session \<Rightarrow> pystr \<Rightarrow> int \<Rightarrow> int \<Rightarrow> place list io" where
  "session_body s page_url max_retries timeout_ms =
     bind (perform s (Launch (\<not> DEBUG_HEADED))) (\<lambda>u.
     bind (perform s NewContext) (\<lambda>u.
     bind (perform s NewPage) (\<lambda>u.
     bind (perform s (SetDefaultTimeout timeout_ms)) (\<lambda>u.
     bind (perform s (SetDefaultNavigationTimeout timeout_ms)) (\<lambda>u.
     bind (perform s Route) (\<lambda>u.
     bind (retry_loop s page_url timeout_ms [1..max_retries] None) (\<lambda>ex.
     case ex of
       Returned data \<Rightarrow> return data
     | Exhausted last_error \<Rightarrow>
         bind (perform s BrowserClose) (\<lambda>u.
         raise (RuntimeError (failed_message max_retries last_error))))))))))"

definition setup_rest :: "int \<Rightarrow> call list" where
  "setup_rest t = [Launch (\<not> DEBUG_HEADED), NewContext, NewPage,
                   SetDefaultTimeout t, SetDefaultNavigationTimeout t, Route]"

fun seq_then :: "session \<Rightarrow> call list \<Rightarrow> 'a io \<Rightarrow> 'a io" where
  "seq_then s [] m = m"
| "seq_then s (c # cs) m = bind (perform s c) (\<lambda>u. seq_then s cs m)"

text \<open>A call that no count of the observations above counts.\<close>

fun plain :: "call \<Rightarrow> bool" where
  "plain c = (\<not> is_file_call c \<and> c \<noteq> BrowserClose \<and> c \<noteq> PlaywrightStop \<and> \<not> is_goto c)"

text \<open>
  How the loop, and how the body of the block, can end, with what the log then holds:
  by returning records after the one successful close; by running out of attempts, the
  last error being that of the attempt made last; or by an exception that a call raised.
\<close>

definition loop_exits ::
  "session \<Rightarrow> pystr \<Rightarrow> int \<Rightarrow> int list \<Rightarrow> exn option \<Rightarrow> exn + loop_exit \<Rightarrow> event list \<Rightarrow> event list \<Rightarrow> bool" where
  "loop_exits s u t ks le r lg' ext =
     ((\<exists>d. r = Inr (Returned d) \<and> d \<noteq> [] \<and> closes ext = 1) \<or>
      (\<exists>le'. r = Inr (Exhausted le') \<and> closes ext = 0 \<and> gotos ext = length ks \<and>
         (ks = [] \<longrightarrow> le' = le \<and> ext = []) \<and>
         (ks \<noteq> [] \<longrightarrow>
            (\<exists>lg2 lg3 x y e. attempt_body s u t lg2 = (Inl e, lg3) \<and> caught e \<and> le' = Some e \<and>
               lg' = lg3 @ [(Screenshot (error_snapshot_path (last ks)), x), (Reload t, y)]))) \<or>
      (\<exists>e. r = Inl e \<and> raised_in e ext \<and> closes ext = 0))"

definition body_exits ::
  "session \<Rightarrow> pystr \<Rightarrow> int \<Rightarrow> int \<Rightarrow> exn + place list \<Rightarrow> event list \<Rightarrow> event list \<Rightarrow> bool" where
  "body_exits s u n t rb lgb ext =
     ((\<exists>d. rb = Inr d \<and> d \<noteq> [] \<and> closes ext = 1) \<or>
      (\<exists>le. rb = Inl (RuntimeError (failed_message n le)) \<and> closes ext = 1 \<and> gotos ext = nat n \<and>
         (n < 1 \<longrightarrow> le = None) \<and>
         (1 \<le> n \<longrightarrow>
            (\<exists>lg2 lg3 x y e. attempt_body s u t lg2 = (Inl e, lg3) \<and> caught e \<and> le = Some e \<and>
               lgb = lg3 @ [(Screenshot (error_snapshot_path n), x), (Reload t, y),
                            (BrowserClose, None)]))) \<or>
      (\<exists>e. rb = Inl e \<and> raised_in e ext \<and> closes ext = 0))"


section \<open>Example inputs\<close>

definition req_tile :: request where
  "req_tile = \<lparr>resource_type = ustr ''script'', url = ustr ''https://tile.openstreetmap.org/7/37/45.png''\<rparr>"

definition req_doc :: request where
  "req_doc = \<lparr>resource_type = ustr ''document'', url = ustr ''https://nominatim.openstreetmap.org/ui/search.html?q=Workshop''\<rparr>"

definition card_commas :: card where
  "card_commas = \<lparr>span_name = Some (ustr '' , ,''), span_type = None, p_coords = None\<rparr>"

definition card_bad_coords :: card where
  "card_bad_coords = \<lparr>span_name = Some (ustr ''Workshop''), span_type = None,
                        p_coords = Some (ustr ''abc, def'')\<rparr>"

definition card_montreal :: card where
  "card_montreal = \<lparr>span_name = Some (ustr ''A, B, C, D''), span_type = Some (ustr ''shop''),
                        p_coords = Some (ustr ''45.0, -73.0'')\<rparr>"

text \<open>Two labels with empty pieces, and their pieces.\<close>

definition card_gaps :: card where
  "card_gaps = \<lparr>span_name = Some (ustr ''A,, B ,C, D,''), span_type = None, p_coords = None\<rparr>"

definition card_trailing :: card where
  "card_trailing = \<lparr>span_name = Some (ustr '' A ,''), span_type = None, p_coords = None\<rparr>"

definition pieces_gaps :: "piece list" where
  "pieces_gaps = [([], ustr ''A'', []), ([], [], []), (ustr '' '', ustr ''B'', ustr '' ''),
                  ([], ustr ''C'', []), (ustr '' '', ustr ''D'', []), ([], [], [])]"

definition pieces_trailing :: "piece list" where
  "pieces_trailing = [(ustr '' '', ustr ''A'', ustr '' ''), ([], [], [])]"

text \<open>
  Mock sessions: one whose page never shows a card, the same with an error snapshot and a
  reload that always fail, one whose cards appear only after the grace wait, and one whose
  navigation fails with a network error.
\<close>

definition session_always_empty :: session where
  "session_always_empty = \<lparr>raises = (\<lambda>h c. None), dom_cards = (\<lambda>h. [])\<rparr>"

definition session_flaky_recovery :: session where
  "session_flaky_recovery =
     \<lparr>raises = (\<lambda>h c. if is_recovery_call c then Some (OtherError (ustr ''page crashed'')) else None),
      dom_cards = (\<lambda>h. [])\<rparr>"

definition session_grace :: session where
  "session_grace =
     \<lparr>raises = (\<lambda>h c. None),
      dom_cards = (\<lambda>h. if WaitForTimeout 1500 \<in> set h then [card_montreal] else [])\<rparr>"

definition session_offline :: session where
  "session_offline =
     \<lparr>raises = (\<lambda>h c. if is_goto c then Some (OtherError (ustr ''net::ERR_NAME_NOT_RESOLVED''))
                        else None),
      dom_cards = (\<lambda>h. [])\<rparr>"


text \<open>
  Two more: a session whose disk is full when the rows are written, and one whose
  \<open>browser.close()\<close> always fails.
\<close>

definition session_disk_full :: session where
  "session_disk_full =
     \<lparr>raises = (\<lambda>h c. case c of
                        WriteRows rows \<Rightarrow> Some (OtherError (ustr ''[Errno 28] No space left on device''))
                      | _ \<Rightarrow> None),
      dom_cards = (\<lambda>h. [card_montreal])\<rparr>"



section \<open>Trimming and splitting\<close>

lemma comma_not_space: "\<not> is_space comma"
  by (simp add: is_space_def comma_def)

lemma all_dropWhile: "(\<forall>x\<in>set (dropWhile P s). P x) \<longleftrightarrow> (\<forall>x\<in>set s. P x)"
  by (induction s) auto

lemma strip_eq_Nil_iff: "strip s = [] \<longleftrightarrow> (\<forall>c\<in>set s. is_space c)"
  by (simp add: strip_def all_dropWhile)

lemma strip_blank: "\<forall>c\<in>set s. is_space c \<Longrightarrow> strip s = []"
  by (simp add: strip_eq_Nil_iff)

lemma set_strip_subset: "set (strip s) \<subseteq> set s"
proof -
  have "set (strip s) \<subseteq> set (dropWhile is_space s)"
    unfolding strip_def using set_dropWhileD by fastforce
  also have "\<dots> \<subseteq> set s" using set_dropWhileD by fastforce
  finally show ?thesis .
qed

lemma dropWhile_blank_append:
  "\<forall>c\<in>set w. P c \<Longrightarrow> dropWhile P (w @ s) = dropWhile P s"
  by (induction w) auto

lemma strip_padded:
  assumes "\<forall>c\<in>set w. is_space c" "\<forall>c\<in>set w'. is_space c"
    and "m \<noteq> []" "\<not> is_space (hd m)" "\<not> is_space (last m)"
  shows "strip (w @ m @ w') = m"
proof -
  have 1: "dropWhile is_space (w @ m @ w') = m @ w'"
    using assms by (cases m) (simp_all add: dropWhile_blank_append)
  have 2: "dropWhile is_space (rev w' @ rev m) = rev m"
    using assms by (cases m rule: rev_cases) (simp_all add: dropWhile_blank_append)
  show ?thesis by (simp add: strip_def 1 2)
qed

lemma split_not_Nil: "split sep s \<noteq> []"
  by (induction s) (auto split: list.splits)

lemma split_no_sep: "sep \<notin> set s \<Longrightarrow> split sep s = [s]"
  by (induction s) (auto split: list.splits)

lemma split_append_sep: "sep \<notin> set a \<Longrightarrow> split sep (a @ sep # b) = a # split sep b"
  by (induction a) (auto split: list.splits)

lemma split_pieces: "p \<in> set (split sep s) \<Longrightarrow> set p \<subseteq> set s - {sep}"
proof (induction s arbitrary: p)
  case Nil then show ?case by simp
next
  case (Cons c cs)
  show ?case
  proof (cases "c = sep")
    case True with Cons show ?thesis by auto
  next
    case False
    obtain q qs where q: "split sep cs = q # qs"
      using split_not_Nil by (cases "split sep cs") auto
    with False Cons.prems have "p = c # q \<or> p \<in> set qs" by auto
    then show ?thesis
    proof
      assume "p = c # q"
      moreover have "set q \<subseteq> set cs - {sep}" using Cons.IH q by simp
      ultimately show ?thesis using False by auto
    next
      assume "p \<in> set qs"
      then have "set p \<subseteq> set cs - {sep}" using Cons.IH q by simp
      then show ?thesis by auto
    qed
  qed
qed

lemma name_parts_blank:
  assumes "\<forall>c\<in>set s. is_space c \<or> c = comma"
  shows "name_parts s = []"
proof -
  have "strip p = []" if "p \<in> set (split comma s)" for p
  proof -
    have "set p \<subseteq> set s - {comma}" using that by (rule split_pieces)
    then have "\<forall>c\<in>set p. is_space c" using assms by auto
    then show ?thesis by (rule strip_blank)
  qed
  then show ?thesis by (simp add: name_parts_def filter_empty_conv)
qed

lemma name_parts_last: "comma \<notin> set x \<Longrightarrow>
  name_parts x = (if strip x = [] then [] else [strip x])"
  by (simp add: name_parts_def split_no_sep)

lemma name_parts_cons: "comma \<notin> set x \<Longrightarrow>
  name_parts (x @ comma # rest) = (if strip x = [] then [] else [strip x]) @ name_parts rest"
  by (simp add: name_parts_def split_append_sep)

lemma parse_cards_loop_acc:
  "parse_cards_loop cards results = results @ parse_cards_loop cards []"
proof (induction cards arbitrary: results)
  case Nil show ?case by simp
next
  case (Cons c cards)
  show ?case
  proof (cases "span_name c")
    case None
    then show ?thesis using Cons.IH [of results] by simp
  next
    case (Some t)
    then show ?thesis
      using Cons.IH [of "results @ [card_record t c]"] Cons.IH [of "[card_record t c]"] by simp
  qed
qed

lemma parse_cards_Nil: "parse_cards [] = []"
  by (simp add: parse_cards_def)

lemma parse_cards_Cons:
  "parse_cards (c # cards) =
     (case span_name c of None \<Rightarrow> parse_cards cards
      | Some t \<Rightarrow> card_record t c # parse_cards cards)"
proof (cases "span_name c")
  case None
  then show ?thesis by (simp add: parse_cards_def)
next
  case (Some t)
  then show ?thesis
    using parse_cards_loop_acc [of cards "[card_record t c]"] by (simp add: parse_cards_def)
qed

lemma parse_cards_append: "parse_cards (xs @ ys) = parse_cards xs @ parse_cards ys"
  by (induction xs) (simp_all add: parse_cards_Nil parse_cards_Cons split: option.splits)

lemma parse_cards_map:
  "parse_cards cards =
     map (\<lambda>c. card_record (the (span_name c)) c) (filter (\<lambda>c. span_name c \<noteq> None) cards)"
  by (induction cards) (auto simp: parse_cards_Nil parse_cards_Cons split: option.splits)

lemma blank_no_comma: "blank w \<Longrightarrow> comma \<notin> set w"
  using comma_not_space by (auto simp: blank_def list_all_iff)

lemma strip_segment:
  "blank w \<Longrightarrow> blank w' \<Longrightarrow> trimmed_segment a \<Longrightarrow> strip (w @ a @ w') = a"
  by (rule strip_padded) (simp_all add: blank_def list_all_iff trimmed_segment_def)

lemma padded_no_comma:
  "blank w \<Longrightarrow> blank w' \<Longrightarrow> trimmed_segment a \<Longrightarrow> comma \<notin> set (w @ a @ w')"
  by (simp add: blank_no_comma trimmed_segment_def)

lemma name_parts_segment_cons:
  assumes "blank w" "blank w'" "trimmed_segment a"
  shows "name_parts (w @ a @ w' @ comma # rest) = a # name_parts rest"
proof -
  have "name_parts ((w @ a @ w') @ comma # rest) =
          (if strip (w @ a @ w') = [] then [] else [strip (w @ a @ w')]) @ name_parts rest"
    using assms by (intro name_parts_cons padded_no_comma)
  moreover have "strip (w @ a @ w') = a" using assms by (rule strip_segment)
  moreover have "a \<noteq> []" using assms(3) by (simp add: trimmed_segment_def)
  ultimately show ?thesis by simp
qed

lemma name_parts_segment_last:
  assumes "blank w" "blank w'" "trimmed_segment a"
  shows "name_parts (w @ a @ w') = [a]"
proof -
  have "name_parts (w @ a @ w') =
          (if strip (w @ a @ w') = [] then [] else [strip (w @ a @ w')])"
    using assms by (intro name_parts_last padded_no_comma)
  moreover have "strip (w @ a @ w') = a" using assms by (rule strip_segment)
  moreover have "a \<noteq> []" using assms(3) by (simp add: trimmed_segment_def)
  ultimately show ?thesis by simp
qed

lemma card_record_name_fields:
  "Name (card_record t c) = (case name_parts (strip t) of [] \<Rightarrow> [] | p # _ \<Rightarrow> p)"
  "Country (card_record t c) =
     (if length (name_parts (strip t)) > 1 then last (name_parts (strip t)) else [])"
  "Address (card_record t c) =
     (if length (name_parts (strip t)) > 2
      then join (ustr '', '') (butlast (tl (name_parts (strip t)))) else [])"
  by (simp_all add: card_record_def Let_def split: prod.splits)

lemma card_record_coords:
  "(Latitude (card_record t c), Longitude (card_record t c)) = parse_coords (p_coords c)"
  by (simp add: card_record_def Let_def split: prod.splits)

lemma rtrim_Cons:
  "rev (dropWhile P (rev (c # b))) =
     (if rev (dropWhile P (rev b)) = [] then (if P c then [] else [c])
      else c # rev (dropWhile P (rev b)))"
  by (auto simp: dropWhile_append all_dropWhile dropWhile_eq_Nil_conv)

lemma trims_commute:
  "dropWhile P (rev (dropWhile P (rev b))) = rev (dropWhile P (rev (dropWhile P b)))"
proof (induction b)
  case Nil show ?case by simp
next
  case (Cons c b)
  show ?case
  proof (cases "P c")
    case True
    then have "dropWhile P (rev (dropWhile P (rev (c # b)))) = dropWhile P (rev (dropWhile P (rev b)))"
    proof (cases "\<forall>x\<in>set b. P x")
      case True
      then have d: "dropWhile P (rev b) = []" by simp
      show ?thesis using True \<open>P c\<close> by (simp add: dropWhile_append d)
    next
      case False
      then show ?thesis using \<open>P c\<close> by (auto simp: dropWhile_append)
    qed
    with True Cons.IH show ?thesis by simp
  next
    case False
    then have "dropWhile P (rev (dropWhile P (rev (c # b)))) = rev (dropWhile P (rev (c # b)))"
      by (simp only: rtrim_Cons) simp
    with False show ?thesis by simp
  qed
qed

lemma strip_ltrim: "strip (dropWhile is_space a) = strip a"
  by (simp add: strip_def)

lemma strip_rtrim: "strip (rev (dropWhile is_space (rev b))) = strip b"
  by (simp add: strip_def trims_commute)

lemma strip_around_comma:
  "strip (a @ comma # b) = dropWhile is_space a @ comma # rev (dropWhile is_space (rev b))"
proof -
  have 1: "dropWhile is_space (a @ comma # b) = dropWhile is_space a @ comma # b"
    using comma_not_space by (induction a) auto
  have 2: "dropWhile is_space (rev b @ comma # rev (dropWhile is_space a))
             = dropWhile is_space (rev b) @ comma # rev (dropWhile is_space a)"
    using comma_not_space by (induction "rev b" arbitrary: b) (auto simp: dropWhile_append)
  show ?thesis by (simp add: strip_def 1 2)
qed

lemma split_once_at: "sep \<notin> set a \<Longrightarrow> split_once sep (a @ sep # b) = (a, b)"
proof -
  assume "sep \<notin> set a"
  then have "\<forall>x\<in>set a. x \<noteq> sep" by auto
  then have "takeWhile (\<lambda>c. c \<noteq> sep) (a @ sep # b) = a"
    and "dropWhile (\<lambda>c. c \<noteq> sep) (a @ sep # b) = sep # b"
    by (induction a) auto
  then show ?thesis by (simp add: split_once_def)
qed

lemma comma_in_strip: "comma \<in> set (strip t) \<longleftrightarrow> comma \<in> set t"
proof
  assume "comma \<in> set (strip t)" then show "comma \<in> set t" using set_strip_subset by blast
next
  assume "comma \<in> set t"
  then obtain a b where "t = a @ comma # b" by (auto simp: in_set_conv_decomp)
  then show "comma \<in> set (strip t)" by (simp add: strip_around_comma)
qed

lemma parse_coords_pair:
  assumes "comma \<notin> set a"
  shows "parse_coords (Some (a @ comma # b)) = (strip a, strip b)"
proof -
  have "comma \<notin> set (dropWhile is_space a)" using assms set_dropWhileD by fastforce
  then have "split_once comma (dropWhile is_space a @ comma # rev (dropWhile is_space (rev b)))
          = (dropWhile is_space a, rev (dropWhile is_space (rev b)))"
    by (rule split_once_at)
  then show ?thesis
    by (simp add: parse_coords_def Let_def strip_around_comma strip_ltrim strip_rtrim)
qed

lemma parse_coords_none:
  "parse_coords None = ([], [])"
  "comma \<notin> set t \<Longrightarrow> parse_coords (Some t) = ([], [])"
  by (simp_all add: parse_coords_def Let_def comma_in_strip)

lemma py_in_iff: "py_in h s \<longleftrightarrow> (\<exists>p q. s = p @ h @ q)"
proof (induction s)
  case Nil show ?case by simp
next
  case (Cons c cs)
  have sw: "startswith (c # cs) h \<longleftrightarrow> (\<exists>q. c # cs = h @ q)"
    unfolding startswith_def by (metis append_eq_conv_conj append_take_drop_id)
  show ?case
  proof
    assume "py_in h (c # cs)"
    then consider "startswith (c # cs) h" | "py_in h cs" by auto
    then show "\<exists>p q. c # cs = p @ h @ q"
    proof cases
      case 1 then obtain q where "c # cs = [] @ h @ q" using sw by auto
      then show ?thesis by blast
    next
      case 2 then obtain p q where "cs = p @ h @ q" using Cons.IH by auto
      then have "c # cs = (c # p) @ h @ q" by simp
      then show ?thesis by blast
    qed
  next
    assume "\<exists>p q. c # cs = p @ h @ q"
    then obtain p q where pq: "c # cs = p @ h @ q" by auto
    show "py_in h (c # cs)"
    proof (cases p)
      case Nil
      with pq have "c # cs = h @ q" by simp
      then have "startswith (c # cs) h" using sw by blast
      then show ?thesis by simp
    next
      case (Cons x p') with pq have "cs = p' @ h @ q" by simp
      then show ?thesis using Cons.IH by auto
    qed
  qed
qed

lemma should_block_iff:
  "should_block u \<longleftrightarrow> (\<exists>h\<in>set BLOCK_HOST_PATTERNS. \<exists>p q. u = p @ h @ q)"
  by (simp add: should_block_def list_ex_iff py_in_iff)


lemma split_prepend:
  "sep \<notin> set x \<Longrightarrow> split sep (x @ s) = (x @ hd (split sep s)) # tl (split sep s)"
proof (induction x)
  case Nil
  then show ?case using split_not_Nil [of sep s] by simp
next
  case (Cons c x)
  then show ?case by simp
qed

lemma split_append_free:
  "sep \<notin> set x \<Longrightarrow> split sep (s @ x) = butlast (split sep s) @ [last (split sep s) @ x]"
proof (induction s)
  case Nil
  then show ?case by (simp add: split_no_sep)
next
  case (Cons c s)
  obtain q qs where q: "split sep s = q # qs"
    using split_not_Nil [of sep s] by (cases "split sep s") auto
  obtain p ps where p: "split sep (s @ x) = p # ps"
    using split_not_Nil [of sep "s @ x"] by (cases "split sep (s @ x)") auto
  have ih: "p # ps = butlast (q # qs) @ [last (q # qs) @ x]"
    using Cons q p by simp
  show ?case
  proof (cases "c = sep")
    case True
    then show ?thesis using ih q p by simp
  next
    case False
    show ?thesis
    proof (cases qs)
      case Nil
      then show ?thesis using False ih q p by simp
    next
      case (Cons r rs)
      then show ?thesis using False ih q p by simp
    qed
  qed
qed

lemma strip_alt: "strip s = dropWhile is_space (rev (dropWhile is_space (rev s)))"
  by (simp add: strip_def trims_commute)

lemma strip_blank_prepend: "\<forall>c\<in>set w. is_space c \<Longrightarrow> strip (w @ x) = strip x"
  by (simp add: strip_def dropWhile_blank_append)

lemma strip_blank_append: "\<forall>c\<in>set w. is_space c \<Longrightarrow> strip (x @ w) = strip x"
  by (simp add: strip_alt dropWhile_blank_append)

lemma rtrim_takeWhile: "rev (dropWhile P (rev s)) @ rev (takeWhile P (rev s)) = s"
proof -
  have "rev (dropWhile P (rev s)) @ rev (takeWhile P (rev s)) =
          rev (takeWhile P (rev s) @ dropWhile P (rev s))"
    by (simp only: rev_append)
  also have "\<dots> = rev (rev s)" by (simp only: takeWhile_dropWhile_id)
  also have "\<dots> = s" by (rule rev_rev_ident)
  finally show ?thesis .
qed

lemma blank_chars_no_comma: "\<forall>c\<in>set w. is_space c \<Longrightarrow> comma \<notin> set w"
  using comma_not_space by auto

lemma map_strip_blank_prepend:
  assumes "\<forall>c\<in>set w. is_space c"
  shows "map strip (split comma (w @ t)) = map strip (split comma t)"
proof -
  obtain p ps where p: "split comma t = p # ps"
    using split_not_Nil [of comma t] by (cases "split comma t") auto
  have "split comma (w @ t) = (w @ p) # ps"
    using split_prepend [OF blank_chars_no_comma [OF assms], of t] p by simp
  then show ?thesis using assms p by (simp add: strip_blank_prepend)
qed

lemma map_strip_blank_append:
  assumes "\<forall>c\<in>set w. is_space c"
  shows "map strip (split comma (t @ w)) = map strip (split comma t)"
proof -
  have ne: "split comma t \<noteq> []" by (rule split_not_Nil)
  have "split comma (t @ w) = butlast (split comma t) @ [last (split comma t) @ w]"
    by (rule split_append_free [OF blank_chars_no_comma [OF assms]])
  then have "map strip (split comma (t @ w)) =
               map strip (butlast (split comma t) @ [last (split comma t)])"
    using assms by (simp add: strip_blank_append)
  also have "\<dots> = map strip (split comma t)" using ne by simp
  finally show ?thesis .
qed

lemma map_strip_ltrim:
  "map strip (split comma (dropWhile is_space s)) = map strip (split comma s)"
proof -
  have "\<forall>c\<in>set (takeWhile is_space s). is_space c" by (auto dest: set_takeWhileD)
  then have "map strip (split comma (takeWhile is_space s @ dropWhile is_space s)) =
             map strip (split comma (dropWhile is_space s))"
    by (rule map_strip_blank_prepend)
  then show ?thesis by (simp only: takeWhile_dropWhile_id)
qed

lemma map_strip_rtrim:
  "map strip (split comma (rev (dropWhile is_space (rev s)))) = map strip (split comma s)"
proof -
  have "\<forall>c\<in>set (rev (takeWhile is_space (rev s))). is_space c"
    by (auto dest: set_takeWhileD)
  then have "map strip (split comma (rev (dropWhile is_space (rev s)) @ rev (takeWhile is_space (rev s)))) =
             map strip (split comma (rev (dropWhile is_space (rev s))))"
    by (rule map_strip_blank_append)
  then show ?thesis by (simp only: rtrim_takeWhile)
qed

lemma name_parts_alt: "name_parts s = filter (\<lambda>a. a \<noteq> []) (map strip (split comma s))"
  by (simp add: name_parts_def filter_map comp_def)

lemma name_parts_strip: "name_parts (strip s) = name_parts s"
proof -
  have "strip s = rev (dropWhile is_space (rev (dropWhile is_space s)))"
    by (simp add: strip_def)
  then have "map strip (split comma (strip s)) = map strip (split comma (dropWhile is_space s))"
    using map_strip_rtrim [of "dropWhile is_space s"] by simp
  also have "\<dots> = map strip (split comma s)" by (rule map_strip_ltrim)
  finally show ?thesis by (simp only: name_parts_alt)
qed

lemma split_join:
  "ps \<noteq> [] \<Longrightarrow> \<forall>p\<in>set ps. sep \<notin> set p \<Longrightarrow> split sep (join [sep] ps) = ps"
proof (induction "[sep]" ps rule: join.induct)
  case 1
  then show ?case by simp
next
  case (2 p)
  then show ?case by (simp add: split_no_sep)
next
  case (3 p q ps)
  then show ?case by (simp add: split_append_sep)
qed

lemma piece_strip: "piece_ok p \<Longrightarrow> strip (padded p) = core p"
proof (cases p)
  case (fields w a w')
  assume "piece_ok p"
  then have ok: "blank w" "blank w'" "a = [] \<or> trimmed_segment a"
    using fields by (simp_all add: piece_ok_def)
  show ?thesis
  proof (cases "a = []")
    case True
    then show ?thesis using ok fields
      by (auto simp: padded_def core_def strip_eq_Nil_iff blank_def list_all_iff)
  next
    case False
    then show ?thesis using ok fields strip_segment [of w w' a]
      by (simp add: padded_def core_def)
  qed
qed

lemma piece_no_comma: "piece_ok p \<Longrightarrow> comma \<notin> set (padded p)"
  by (cases p) (auto simp: piece_ok_def padded_def blank_no_comma trimmed_segment_def)

lemma name_parts_pieces:
  assumes "ts \<noteq> []" "list_all piece_ok ts"
  shows "name_parts (strip (join [comma] (map padded ts))) = filter (\<lambda>a. a \<noteq> []) (map core ts)"
proof -
  have "split comma (join [comma] (map padded ts)) = map padded ts"
    using assms by (intro split_join) (auto simp: list_all_iff piece_no_comma)
  moreover have "map strip (map padded ts) = map core ts"
    using assms(2) by (induction ts) (simp_all add: piece_strip)
  ultimately have "name_parts (join [comma] (map padded ts)) = filter (\<lambda>a. a \<noteq> []) (map core ts)"
    by (simp only: name_parts_alt)
  then show ?thesis by (simp only: name_parts_strip)
qed


section \<open>Properties of the Card Extractor\<close>

text \<open>
  Claim C1. Let the primary label be cut by its commas into pieces, each of them whitespace
  only (possibly empty) or a segment with whitespace around it, a segment being non-empty,
  without a comma and without whitespace at either end. The pieces of whitespace only are
  dropped: when the segments are \<open>A\<close>, \<open>B\<close>, \<open>C\<close>, \<open>D\<close> the record has name \<open>A\<close>,
  address \<open>B, C\<close> and country \<open>D\<close>; when the only segment is \<open>A\<close> it has name \<open>A\<close>
  and an empty address and country. The record stands in the output at the card's place.
\<close>

theorem card_name_segments:
  assumes "ts \<noteq> []" and "list_all piece_ok ts"
    and "span_name c = Some (join [comma] (map padded ts))"
  shows "(filter (\<lambda>a. a \<noteq> []) (map core ts) = [A, B, C, D] \<longrightarrow>
           (\<exists>r. parse_cards (pre @ c # post) = parse_cards pre @ r # parse_cards post \<and>
                Name r = A \<and> Address r = B @ ustr '', '' @ C \<and> Country r = D)) \<and>
         (filter (\<lambda>a. a \<noteq> []) (map core ts) = [A] \<longrightarrow>
           (\<exists>r. parse_cards (pre @ c # post) = parse_cards pre @ r # parse_cards post \<and>
                Name r = A \<and> Address r = [] \<and> Country r = []))"
proof -
  let ?t = "join [comma] (map padded ts)"
  have pc: "parse_cards (pre @ c # post) = parse_cards pre @ card_record ?t c # parse_cards post"
    using assms(3) by (simp add: parse_cards_append parse_cards_Cons)
  have np: "name_parts (strip ?t) = filter (\<lambda>a. a \<noteq> []) (map core ts)"
    using assms(1,2) by (rule name_parts_pieces)
  have 4: "filter (\<lambda>a. a \<noteq> []) (map core ts) = [A, B, C, D] \<Longrightarrow>
      Name (card_record ?t c) = A \<and> Address (card_record ?t c) = B @ ustr '', '' @ C \<and>
      Country (card_record ?t c) = D"
    using np by (simp add: card_record_name_fields)
  have 1: "filter (\<lambda>a. a \<noteq> []) (map core ts) = [A] \<Longrightarrow>
      Name (card_record ?t c) = A \<and> Address (card_record ?t c) = [] \<and>
      Country (card_record ?t c) = []"
    using np by (simp add: card_record_name_fields)
  show ?thesis using pc 4 1 by blast
qed

theorem card_name_segments_witness:
  "(\<exists>r. parse_cards ([] @ card_gaps # []) = parse_cards [] @ r # parse_cards [] \<and>
        Name r = ustr ''A'' \<and> Address r = ustr ''B, C'' \<and> Country r = ustr ''D'') \<and>
   (\<exists>r. parse_cards ([] @ card_trailing # []) = parse_cards [] @ r # parse_cards [] \<and>
        Name r = ustr ''A'' \<and> Address r = [] \<and> Country r = [])"
proof -
  have ok: "list_all piece_ok pieces_gaps" "list_all piece_ok pieces_trailing"
    by (simp_all add: pieces_gaps_def pieces_trailing_def piece_ok_def blank_def
        trimmed_segment_def ustr_def comma_def is_space_def)
  have ne: "pieces_gaps \<noteq> []" "pieces_trailing \<noteq> []"
    by (simp_all add: pieces_gaps_def pieces_trailing_def)
  have l4: "span_name card_gaps = Some (join [comma] (map padded pieces_gaps))"
    by (simp add: card_gaps_def pieces_gaps_def padded_def ustr_def comma_def)
  have l1: "span_name card_trailing = Some (join [comma] (map padded pieces_trailing))"
    by (simp add: card_trailing_def pieces_trailing_def padded_def ustr_def comma_def)
  have c4: "filter (\<lambda>a. a \<noteq> []) (map core pieces_gaps) = [ustr ''A'', ustr ''B'', ustr ''C'', ustr ''D'']"
    by (simp add: pieces_gaps_def core_def ustr_def)
  have c1: "filter (\<lambda>a. a \<noteq> []) (map core pieces_trailing) = [ustr ''A'']"
    by (simp add: pieces_trailing_def core_def ustr_def)
  have adr: "ustr ''B'' @ ustr '', '' @ ustr ''C'' = ustr ''B, C''" by (simp add: ustr_def)
  have "\<exists>r. parse_cards ([] @ card_gaps # []) = parse_cards [] @ r # parse_cards [] \<and>
        Name r = ustr ''A'' \<and> Address r = ustr ''B'' @ ustr '', '' @ ustr ''C'' \<and> Country r = ustr ''D''"
    using card_name_segments [OF ne(1) ok(1) l4, of "ustr ''A''" "ustr ''B''" "ustr ''C''" "ustr ''D''" "[]" "[]"] c4
    by blast
  moreover have "\<exists>r. parse_cards ([] @ card_trailing # []) = parse_cards [] @ r # parse_cards [] \<and>
        Name r = ustr ''A'' \<and> Address r = [] \<and> Country r = []"
    using card_name_segments [OF ne(2) ok(2) l1, of "ustr ''A''" _ _ _ "[]" "[]"] c1
    by blast
  ultimately show ?thesis by (simp only: adr simp_thms)
qed

text \<open>
  Claim C2. The output holds one record for each card that has a primary label, in the
  order of the cards, and none for the others: its length and the number of cards without
  a primary label add up to the number of cards.
\<close>

theorem skipped_cards_excluded:
  "length (parse_cards cards) + length (filter (\<lambda>c. span_name c = None) cards) = length cards \<and>
   parse_cards cards =
     map (\<lambda>c. card_record (the (span_name c)) c) (filter (\<lambda>c. span_name c \<noteq> None) cards)"
proof -
  have "length (filter (\<lambda>c. span_name c \<noteq> None) cards) + length (filter (\<lambda>c. span_name c = None) cards) = length cards"
    using sum_length_filter_compl [of "\<lambda>c. span_name c \<noteq> None" cards] by simp
  then show ?thesis by (simp add: parse_cards_map)
qed

text \<open>
  Claim C3, as stated, fails: a coordinate text that is no pair of numbers but contains a
  comma is split all the same, so the fields are not empty.
\<close>

theorem malformed_coords_counterexample:
  "map Latitude (parse_cards [card_bad_coords]) = [ustr ''abc''] \<and>
   map Longitude (parse_cards [card_bad_coords]) = [ustr ''def''] \<and>
   ustr ''abc'' \<noteq> []"
  by (simp add: parse_cards_def card_bad_coords_def card_record_def name_parts_def
      parse_coords_def split_once_def strip_def is_space_def comma_def ustr_def Let_def)

text \<open>
  Claim C3, amended. Latitude and longitude are both empty when the coordinate node is
  absent or its text has no comma; a text with a comma is split at the first comma into the
  two trimmed pieces, whatever they are; \<open>45.0, -73.0\<close> gives \<open>45.0\<close> and \<open>-73.0\<close>.
\<close>

theorem coords_fields:
  assumes "span_name c = Some n"
  shows "\<exists>r. parse_cards (pre @ c # post) = parse_cards pre @ r # parse_cards post \<and>
     ((p_coords c = None \<or> (\<exists>t. p_coords c = Some t \<and> comma \<notin> set t)) \<longrightarrow>
        Latitude r = [] \<and> Longitude r = []) \<and>
     (\<forall>a b. p_coords c = Some (a @ comma # b) \<and> comma \<notin> set a \<longrightarrow>
        Latitude r = strip a \<and> Longitude r = strip b) \<and>
     (p_coords c = Some (ustr ''45.0, -73.0'') \<longrightarrow>
        Latitude r = ustr ''45.0'' \<and> Longitude r = ustr ''-73.0'')"
proof -
  let ?r = "card_record n c"
  have pc: "parse_cards (pre @ c # post) = parse_cards pre @ ?r # parse_cards post"
    using assms by (simp add: parse_cards_append parse_cards_Cons)
  have f: "Latitude ?r = fst (parse_coords (p_coords c))" "Longitude ?r = snd (parse_coords (p_coords c))"
    using card_record_coords [of n c] by (metis fst_conv, metis snd_conv)
  have 1: "(p_coords c = None \<or> (\<exists>t. p_coords c = Some t \<and> comma \<notin> set t)) \<longrightarrow>
        Latitude ?r = [] \<and> Longitude ?r = []"
    by (auto simp: f parse_coords_none)
  have 2: "\<forall>a b. p_coords c = Some (a @ comma # b) \<and> comma \<notin> set a \<longrightarrow>
        Latitude ?r = strip a \<and> Longitude ?r = strip b"
    by (auto simp: f parse_coords_pair)
  have "ustr ''45.0, -73.0'' = ustr ''45.0'' @ comma # ustr '' -73.0''"
    by (simp add: ustr_def comma_def)
  moreover have "comma \<notin> set (ustr ''45.0'')" by (simp add: ustr_def comma_def)
  moreover have "strip (ustr ''45.0'') = ustr ''45.0''" "strip (ustr '' -73.0'') = ustr ''-73.0''"
    by (simp_all add: ustr_def strip_def is_space_def)
  ultimately have 3: "p_coords c = Some (ustr ''45.0, -73.0'') \<longrightarrow>
        Latitude ?r = ustr ''45.0'' \<and> Longitude ?r = ustr ''-73.0''"
    using 2 by metis
  show ?thesis using pc 1 2 3 by blast
qed

theorem coords_fields_witness:
  "span_name card_montreal = Some (ustr ''A, B, C, D'') \<and>
   (\<exists>r. parse_cards ([] @ card_montreal # []) = parse_cards [] @ r # parse_cards [] \<and>
        Latitude r = ustr ''45.0'' \<and> Longitude r = ustr ''-73.0'')"
proof -
  have 1: "span_name card_montreal = Some (ustr ''A, B, C, D'')" by (simp add: card_montreal_def)
  have 2: "p_coords card_montreal = Some (ustr ''45.0, -73.0'')" by (simp add: card_montreal_def)
  show ?thesis using 1 2 coords_fields [OF 1, of "[]" "[]"] by blast
qed

text \<open>
  Claim C10. A card whose primary label exists but trims to the empty string, or holds
  only commas and whitespace, is not skipped: it yields a record whose name, address and
  country are empty.
\<close>

theorem blank_label_not_skipped:
  assumes "span_name c = Some t"
    and "strip t = [] \<or> (\<forall>ch\<in>set t. is_space ch \<or> ch = comma)"
  shows "\<exists>r. parse_cards (pre @ c # post) = parse_cards pre @ r # parse_cards post \<and>
             Name r = [] \<and> Address r = [] \<and> Country r = []"
proof -
  have "\<forall>ch\<in>set t. is_space ch \<or> ch = comma"
    using assms(2) by (auto simp: strip_eq_Nil_iff)
  then have "\<forall>ch\<in>set (strip t). is_space ch \<or> ch = comma"
    using set_strip_subset by blast
  then have "name_parts (strip t) = []" by (rule name_parts_blank)
  then have "Name (card_record t c) = [] \<and> Address (card_record t c) = []
             \<and> Country (card_record t c) = []"
    by (simp add: card_record_name_fields)
  moreover have "parse_cards (pre @ c # post) = parse_cards pre @ card_record t c # parse_cards post"
    using assms(1) by (simp add: parse_cards_append parse_cards_Cons)
  ultimately show ?thesis by blast
qed

theorem blank_label_not_skipped_witness:
  "span_name card_commas = Some (ustr '' , ,'') \<and>
   list_all (\<lambda>ch. is_space ch \<or> ch = comma) (ustr '' , ,'') \<and>
   (\<exists>r. parse_cards ([] @ card_commas # []) = parse_cards [] @ r # parse_cards [] \<and>
        Name r = [] \<and> Address r = [] \<and> Country r = [])"
proof -
  have 1: "span_name card_commas = Some (ustr '' , ,'')" by (simp add: card_commas_def)
  have 2: "\<forall>ch\<in>set (ustr '' , ,''). is_space ch \<or> ch = comma"
    by (simp add: ustr_def is_space_def comma_def)
  have 3: "list_all (\<lambda>ch. is_space ch \<or> ch = comma) (ustr '' , ,'')"
    using 2 by (simp only: list_all_iff)
  show ?thesis using 1 3 blank_label_not_skipped [OF 1 disjI2, OF 2, of "[]" "[]"] by blast
qed


section \<open>Properties of the Resource Filter\<close>

text \<open>
  Claim C4. The handler aborts a request exactly when its resource type is \<open>image\<close>,
  \<open>font\<close> or \<open>media\<close>, or one of the blocked host patterns occurs in its URL. So a
  URL with a blocked pattern is aborted whatever the type, one of the three types is aborted
  whatever the URL, and a \<open>document\<close> or \<open>script\<close> request whose URL contains no
  blocked pattern continues.
\<close>

theorem route_handler_aborts:
  "(route_handler req = Abort \<longleftrightarrow>
      resource_type req \<in> {ustr ''image'', ustr ''font'', ustr ''media''} \<or>
      (\<exists>h\<in>set BLOCK_HOST_PATTERNS. \<exists>p q. url req = p @ h @ q)) \<and>
   ((\<exists>h\<in>set BLOCK_HOST_PATTERNS. \<exists>p q. url req = p @ h @ q) \<longrightarrow> route_handler req = Abort) \<and>
   (resource_type req \<in> {ustr ''image'', ustr ''font'', ustr ''media''} \<longrightarrow> route_handler req = Abort) \<and>
   (resource_type req \<in> {ustr ''document'', ustr ''script''} \<and>
    \<not> (\<exists>h\<in>set BLOCK_HOST_PATTERNS. \<exists>p q. url req = p @ h @ q) \<longrightarrow> route_handler req = Continue)"
proof -
  have types: "ustr ''document'' \<notin> BLOCK_RESOURCE_TYPES" "ustr ''script'' \<notin> BLOCK_RESOURCE_TYPES"
    by (simp_all add: BLOCK_RESOURCE_TYPES_def ustr_def)
  show ?thesis
    unfolding route_handler_def should_block_iff
    using types by (auto simp: BLOCK_RESOURCE_TYPES_def)
qed

theorem route_handler_aborts_witness:
  "route_handler req_tile = Abort \<and>
   (resource_type req_tile \<in> {ustr ''image'', ustr ''font'', ustr ''media''} \<or>
      (\<exists>h\<in>set BLOCK_HOST_PATTERNS. \<exists>p q. url req_tile = p @ h @ q)) \<and>
   resource_type req_doc \<in> {ustr ''document'', ustr ''script''} \<and>
   route_handler req_doc = Continue"
proof -
  have 1: "route_handler req_tile = Abort"
    by (simp add: route_handler_def req_tile_def should_block_def BLOCK_HOST_PATTERNS_def
        BLOCK_RESOURCE_TYPES_def ustr_def startswith_def)
  have 2: "route_handler req_doc = Continue"
    by (simp add: route_handler_def req_doc_def should_block_def BLOCK_HOST_PATTERNS_def
        BLOCK_RESOURCE_TYPES_def ustr_def startswith_def)
  have 3: "resource_type req_doc \<in> {ustr ''document'', ustr ''script''}"
    by (simp add: req_doc_def)
  show ?thesis using 1 2 3 route_handler_aborts [of req_tile] by simp
qed


section \<open>Properties of the Acquisition Controller\<close>

lemma closes_simps [simp]:
  "closes [] = 0"
  "closes (lg @ lg') = closes lg + closes lg'"
  "closes ((c, x) # lg) = (if c = BrowserClose \<and> x = None then 1 else 0) + closes lg"
  by (simp_all add: closes_def)

lemma raised_in_simps [simp]:
  "raised_in e [] = False"
  "raised_in e (lg @ lg') = (raised_in e lg \<or> raised_in e lg')"
  "raised_in e ((c, x) # lg) = (x = Some e \<or> raised_in e lg)"
  by (auto simp: raised_in_def)

lemma file_calls_simps [simp]:
  "file_calls [] = []"
  "file_calls (lg @ lg') = file_calls lg @ file_calls lg'"
  "file_calls ((c, x) # lg) = (if is_file_call c then [c] else []) @ file_calls lg"
  by (simp_all add: file_calls_def)

lemma stops_simps [simp]:
  "stops [] = 0"
  "stops (lg @ lg') = stops lg + stops lg'"
  "stops ((c, x) # lg) = (if c = PlaywrightStop \<and> x = None then 1 else 0) + stops lg"
  by (simp_all add: stops_def)

lemma attempt_body_ext:
  assumes "attempt_body s u t lg = (r, lg')"
  shows "\<exists>ext. lg' = lg @ ext \<and> file_calls ext = [] \<and> stops ext = 0 \<and>
           closes ext = (case r of Inr d \<Rightarrow> 1 | Inl e \<Rightarrow> 0) \<and>
           (\<forall>e. r = Inl e \<longrightarrow> raised_in e ext \<or> e = NO_CARDS) \<and>
           (\<forall>d. r = Inr d \<longrightarrow> d \<noteq> [])"
  using assms
  unfolding attempt_body_def page_parse_cards_def debug_screenshot_def DEBUG_HEADED_def NO_CARDS_def
  by (auto simp: bind_def perform_def return_def raise_def split: option.splits if_splits)

lemma recover_eq:
  "recover s k t lg =
     (Inr (), lg @ [(Screenshot (error_snapshot_path k),
                     raises s (map fst lg) (Screenshot (error_snapshot_path k))),
                    (Reload t,
                     raises s (map fst lg @ [Screenshot (error_snapshot_path k)]) (Reload t))])"
  by (simp add: recover_def bind_def swallow_def perform_def split: option.splits)

lemma caught_NO_CARDS: "caught NO_CARDS"
  by (simp add: NO_CARDS_def)

lemma retry_loop_ext:
  "retry_loop s u t as le lg = (r, lg') \<Longrightarrow>
     \<exists>ext. lg' = lg @ ext \<and> file_calls ext = [] \<and> stops ext = 0 \<and>
       closes ext = (case r of Inr (Returned d) \<Rightarrow> 1 | _ \<Rightarrow> 0) \<and>
       (\<forall>e. r = Inl e \<longrightarrow> raised_in e ext) \<and>
       (\<forall>d. r = Inr (Returned d) \<longrightarrow> d \<noteq> [])"
proof (induction as arbitrary: le lg)
  case Nil
  then show ?case by auto
next
  case (Cons k rest)
  obtain r1 lg1 where a: "attempt_body s u t lg = (r1, lg1)" by (cases "attempt_body s u t lg")
  obtain ext1 where e1: "lg1 = lg @ ext1" "file_calls ext1 = []" "stops ext1 = 0"
      "closes ext1 = (case r1 of Inr d \<Rightarrow> 1 | Inl e \<Rightarrow> 0)"
      "\<forall>e. r1 = Inl e \<longrightarrow> raised_in e ext1 \<or> e = NO_CARDS"
      "\<forall>d. r1 = Inr d \<longrightarrow> d \<noteq> []"
    using attempt_body_ext [OF a] by blast
  show ?case
  proof (cases r1)
    case (Inr d)
    with Cons.prems a have "r = Inr (Returned d)" "lg' = lg1" by auto
    with e1 Inr show ?thesis by auto
  next
    case (Inl e)
    show ?thesis
    proof (cases "caught e")
      case False
      with Cons.prems a Inl have "r = Inl e" "lg' = lg1" by auto
      moreover have "raised_in e ext1" using e1(5) Inl False caught_NO_CARDS by auto
      ultimately show ?thesis using e1 Inl by auto
    next
      case True
      define lg2 where "lg2 = snd (recover s k t lg1)"
      have rec: "recover s k t lg1 = (Inr (), lg2)" unfolding lg2_def by (simp add: recover_eq)
      have rl: "retry_loop s u t rest (Some e) lg2 = (r, lg')"
        using Cons.prems a Inl True rec by (simp add: bind_def)
      obtain ext2 where e2: "lg' = lg2 @ ext2" "file_calls ext2 = []" "stops ext2 = 0"
          "closes ext2 = (case r of Inr (Returned d) \<Rightarrow> 1 | _ \<Rightarrow> 0)"
          "\<forall>e. r = Inl e \<longrightarrow> raised_in e ext2"
          "\<forall>d. r = Inr (Returned d) \<longrightarrow> d \<noteq> []"
        using Cons.IH [OF rl] by blast
      obtain x y where lg2: "lg2 = lg1 @ [(Screenshot (error_snapshot_path k), x), (Reload t, y)]"
        unfolding lg2_def by (simp add: recover_eq)
      let ?ext = "ext1 @ [(Screenshot (error_snapshot_path k), x), (Reload t, y)] @ ext2"
      have "lg' = lg @ ?ext" using e1(1) e2(1) lg2 by simp
      moreover have "file_calls ?ext = []" using e1(2) e2(2) by simp
      moreover have "stops ?ext = 0" using e1(3) e2(3) by simp
      moreover have "closes ?ext = (case r of Inr (Returned d) \<Rightarrow> 1 | _ \<Rightarrow> 0)"
        using e1(4) e2(4) Inl by simp
      moreover have "\<forall>e. r = Inl e \<longrightarrow> raised_in e ?ext" using e2(5) by simp
      ultimately show ?thesis using e2(6) by blast
    qed
  qed
qed

lemma scrape_ext:
  assumes "scrape_with_playwright s u n t lg = (r, lg')"
  shows "\<exists>ext. lg' = lg @ ext \<and> file_calls ext = [] \<and> closes ext \<le> 1 \<and>
           (\<forall>d. r = Inr d \<longrightarrow> closes ext = 1 \<and> stops ext = 1 \<and> d \<noteq> []) \<and>
           (\<forall>e. r = Inl e \<longrightarrow> raised_in e ext \<or>
                 (closes ext = 1 \<and> stops ext = 1 \<and> (\<exists>le. e = RuntimeError (failed_message n le))))"
  using assms
  unfolding scrape_with_playwright_def with_block_def
  by (auto simp: bind_def perform_def return_def raise_def
      split: option.splits prod.splits sum.splits loop_exit.splits dest!: retry_loop_ext)

lemma gotos_simps [simp]:
  "gotos [] = 0"
  "gotos (lg @ lg') = gotos lg + gotos lg'"
  "gotos ((c, x) # lg) = (if is_goto c then 1 else 0) + gotos lg"
  by (simp_all add: gotos_def)















lemma attempt_body_empty:
  assumes "\<forall>h c. \<not> is_recovery_call c \<longrightarrow> raises s h c = None"
    and "\<forall>h. parse_cards (dom_cards s h) = []"
  shows "attempt_body s u t lg =
           (Inl NO_CARDS, lg @ succeeded (wait_calls u t @ grace_calls @ [QuerySelectorAll]))"
  using assms
  unfolding attempt_body_def page_parse_cards_def NO_CARDS_def succeeded_def wait_calls_def
    grace_calls_def
  by (simp add: bind_def perform_def return_def raise_def)

lemma retry_loop_empty:
  assumes "\<forall>h c. \<not> is_recovery_call c \<longrightarrow> raises s h c = None"
    and "\<forall>h. parse_cards (dom_cards s h) = []"
  shows "\<exists>ext. retry_loop s u t as le lg =
                  (Inr (Exhausted (if as = [] then le else Some NO_CARDS)), lg @ ext) \<and>
               gotos ext = length as \<and> closes ext = 0"
proof (induction as arbitrary: le lg)
  case Nil
  show ?case by simp
next
  case (Cons k rest)
  let ?lg1 = "lg @ succeeded (wait_calls u t @ grace_calls @ [QuerySelectorAll])"
  define lg2 where "lg2 = snd (recover s k t ?lg1)"
  obtain x y where lg2: "lg2 = ?lg1 @ [(Screenshot (error_snapshot_path k), x), (Reload t, y)]"
    unfolding lg2_def by (simp add: recover_eq)
  have rec: "recover s k t ?lg1 = (Inr (), lg2)" unfolding lg2_def by (simp add: recover_eq)
  obtain ext where ext: "retry_loop s u t rest (Some NO_CARDS) lg2 =
       (Inr (Exhausted (if rest = [] then Some NO_CARDS else Some NO_CARDS)), lg2 @ ext)"
      "gotos ext = length rest" "closes ext = 0"
    using Cons.IH [of "Some NO_CARDS" lg2] by blast
  let ?ext = "succeeded (wait_calls u t @ grace_calls @ [QuerySelectorAll])
      @ [(Screenshot (error_snapshot_path k), x), (Reload t, y)] @ ext"
  have ab: "attempt_body s u t lg = (Inl NO_CARDS, ?lg1)"
    by (rule attempt_body_empty [OF assms])
  have "retry_loop s u t (k # rest) le lg = (Inr (Exhausted (Some NO_CARDS)), lg2 @ ext)"
    using ext(1) by (simp add: ab rec caught_NO_CARDS bind_def)
  moreover have "lg2 @ ext = lg @ ?ext"
    using lg2 by simp
  moreover have "gotos ?ext = length (k # rest)"
    using ext(2) by (simp add: succeeded_def wait_calls_def grace_calls_def)
  moreover have "closes ?ext = 0"
    using ext(3) by (simp add: succeeded_def wait_calls_def grace_calls_def)
  ultimately have "retry_loop s u t (k # rest) le lg =
        (Inr (Exhausted (if k # rest = [] then le else Some NO_CARDS)), lg @ ?ext) \<and>
      gotos ?ext = length (k # rest) \<and> closes ?ext = 0"
    by simp
  then show ?case by (rule exI)
qed

lemma scrape_all_empty:
  assumes "\<forall>h c. \<not> is_recovery_call c \<longrightarrow> raises s h c = None"
    and "\<forall>h. parse_cards (dom_cards s h) = []"
  shows "fst (scrape_with_playwright s u n t []) =
           Inl (RuntimeError (failed_message n
                  (if n < 1 then None
                   else Some (RuntimeError (ustr ''No cards parsed (empty result).''))))) \<and>
         gotos (snd (scrape_with_playwright s u n t [])) = nat n \<and>
         closes (snd (scrape_with_playwright s u n t [])) = 1 \<and>
         file_calls (snd (scrape_with_playwright s u n t [])) = []"
proof -
  define ks where "ks = [1..n]"
  define lg0 where "lg0 = succeeded (setup_calls t)"
  define le where "le = (if ks = [] then None else Some NO_CARDS)"
  obtain ext where ext: "retry_loop s u t ks None lg0 = (Inr (Exhausted le), lg0 @ ext)"
      "gotos ext = length ks" "closes ext = 0"
    unfolding le_def using retry_loop_empty [OF assms, of u t ks None lg0] by blast
  have fc: "file_calls ext = []"
    using retry_loop_ext [OF ext(1)] by auto
  have le: "le = (if n < 1 then None
                  else Some (RuntimeError (ustr ''No cards parsed (empty result).'')))"
    by (simp add: le_def ks_def NO_CARDS_def)
  have quiet: "\<And>h c. \<not> is_recovery_call c \<Longrightarrow> raises s h c = None"
    using assms(1) by blast
  have lg0_eq: "lg0 = [(PlaywrightStart, None), (Launch (\<not> DEBUG_HEADED), None), (NewContext, None),
      (NewPage, None), (SetDefaultTimeout t, None), (SetDefaultNavigationTimeout t, None),
      (Route, None)]"
    by (simp add: lg0_def succeeded_def setup_calls_def)
  have "scrape_with_playwright s u n t [] =
          (Inl (RuntimeError (failed_message n le)),
           lg0 @ ext @ [(BrowserClose, None), (PlaywrightStop, None)])"
    unfolding scrape_with_playwright_def ks_def [symmetric]
    by (simp add: with_block_def bind_def perform_def raise_def quiet lg0_eq [symmetric] ext(1))
  then show ?thesis using ext(2,3) fc le
    by (simp add: lg0_eq ks_def)
qed

lemma attempt_body_grace:
  assumes "all_succeed s (map fst lg) (wait_calls u t @ grace_calls @ [QuerySelectorAll, BrowserClose])"
    and "parse_cards (dom_cards s (map fst lg @ wait_calls u t)) = []"
    and "parse_cards (dom_cards s (map fst lg @ wait_calls u t @ grace_calls)) \<noteq> []"
  shows "attempt_body s u t lg =
           (Inr (parse_cards (dom_cards s (map fst lg @ wait_calls u t @ grace_calls))),
            lg @ succeeded (wait_calls u t @ grace_calls @ [QuerySelectorAll, BrowserClose]))"
  using assms
  unfolding attempt_body_def page_parse_cards_def debug_screenshot_def DEBUG_HEADED_def
    succeeded_def wait_calls_def grace_calls_def
  by (simp add: bind_def perform_def return_def)

lemma retry_loop_grace:
  assumes "all_succeed s (map fst lg) (wait_calls u t @ grace_calls @ [QuerySelectorAll, BrowserClose])"
    and "parse_cards (dom_cards s (map fst lg @ wait_calls u t)) = []"
    and "parse_cards (dom_cards s (map fst lg @ wait_calls u t @ grace_calls)) \<noteq> []"
  shows "retry_loop s u t (k # rest) le lg =
           (Inr (Returned (parse_cards (dom_cards s (map fst lg @ wait_calls u t @ grace_calls)))),
            lg @ succeeded (wait_calls u t @ grace_calls @ [QuerySelectorAll, BrowserClose]))"
  by (simp add: attempt_body_grace [OF assms])

lemma setup_ok:
  assumes "all_succeed s [] (setup_calls t)"
  shows "raises s [] PlaywrightStart = None"
    "raises s [PlaywrightStart] (Launch (\<not> DEBUG_HEADED)) = None"
    "raises s [PlaywrightStart, Launch (\<not> DEBUG_HEADED)] NewContext = None"
    "raises s [PlaywrightStart, Launch (\<not> DEBUG_HEADED), NewContext] NewPage = None"
    "raises s [PlaywrightStart, Launch (\<not> DEBUG_HEADED), NewContext, NewPage]
       (SetDefaultTimeout t) = None"
    "raises s [PlaywrightStart, Launch (\<not> DEBUG_HEADED), NewContext, NewPage,
       SetDefaultTimeout t] (SetDefaultNavigationTimeout t) = None"
    "raises s [PlaywrightStart, Launch (\<not> DEBUG_HEADED), NewContext, NewPage,
       SetDefaultTimeout t, SetDefaultNavigationTimeout t] Route = None"
  using assms by (simp_all add: setup_calls_def)

lemma scrape_returned:
  assumes "all_succeed s [] (setup_calls t)"
    and "retry_loop s u t [1..n] None (succeeded (setup_calls t)) = (Inr (Returned d), lg1)"
    and "raises s (map fst lg1) PlaywrightStop = None"
  shows "scrape_with_playwright s u n t [] = (Inr d, lg1 @ [(PlaywrightStop, None)])"
proof -
  define ks where "ks = [1..n]"
  have lg0_eq: "succeeded (setup_calls t) =
     [(PlaywrightStart, None), (Launch (\<not> DEBUG_HEADED), None), (NewContext, None),
      (NewPage, None), (SetDefaultTimeout t, None), (SetDefaultNavigationTimeout t, None),
      (Route, None)]"
    by (simp add: succeeded_def setup_calls_def)
  have rl: "retry_loop s u t ks None (succeeded (setup_calls t)) = (Inr (Returned d), lg1)"
    using assms(2) by (simp add: ks_def)
  show ?thesis
    unfolding scrape_with_playwright_def ks_def [symmetric]
    by (simp add: with_block_def bind_def perform_def return_def setup_ok [OF assms(1)]
        lg0_eq [symmetric] rl assms(3))
qed

text \<open>
  Claim C5. In an attempt whose waits succeed and whose first extraction is empty, if the
  extraction after the 1500 ms grace wait is non-empty and the browser closes, the loop
  returns that extraction at once: the log grows by this one attempt (one \<open>goto\<close>), and
  the attempts still to come are not touched. When this is the first attempt of a run whose
  setup succeeded, \<open>scrape_with_playwright\<close> returns the records.
\<close>

theorem grace_recheck_same_attempt:
  assumes "all_succeed s (map fst lg) (wait_calls u t @ grace_calls @ [QuerySelectorAll, BrowserClose])"
    and "parse_cards (dom_cards s (map fst lg @ wait_calls u t)) = []"
    and "parse_cards (dom_cards s (map fst lg @ wait_calls u t @ grace_calls)) \<noteq> []"
  shows "retry_loop s u t (k # rest) le lg =
           (Inr (Returned (parse_cards (dom_cards s (map fst lg @ wait_calls u t @ grace_calls)))),
            lg @ succeeded (wait_calls u t @ grace_calls @ [QuerySelectorAll, BrowserClose])) \<and>
         gotos (succeeded (wait_calls u t @ grace_calls @ [QuerySelectorAll, BrowserClose])) = 1 \<and>
         (1 \<le> n \<and> lg = succeeded (setup_calls t) \<and> all_succeed s [] (setup_calls t) \<and>
          raises s (setup_calls t @ wait_calls u t @ grace_calls @ [QuerySelectorAll, BrowserClose])
            PlaywrightStop = None \<longrightarrow>
          scrape_with_playwright s u n t [] =
            (Inr (parse_cards (dom_cards s (map fst lg @ wait_calls u t @ grace_calls))),
             lg @ succeeded (wait_calls u t @ grace_calls @ [QuerySelectorAll, BrowserClose])
                @ [(PlaywrightStop, None)]))"
proof (intro conjI impI)
  show "retry_loop s u t (k # rest) le lg =
           (Inr (Returned (parse_cards (dom_cards s (map fst lg @ wait_calls u t @ grace_calls)))),
            lg @ succeeded (wait_calls u t @ grace_calls @ [QuerySelectorAll, BrowserClose]))"
    by (rule retry_loop_grace [OF assms])
  show "gotos (succeeded (wait_calls u t @ grace_calls @ [QuerySelectorAll, BrowserClose])) = 1"
    by (simp add: succeeded_def wait_calls_def grace_calls_def)
next
  assume a: "1 \<le> n \<and> lg = succeeded (setup_calls t) \<and> all_succeed s [] (setup_calls t) \<and>
          raises s (setup_calls t @ wait_calls u t @ grace_calls @ [QuerySelectorAll, BrowserClose])
            PlaywrightStop = None"
  let ?d = "parse_cards (dom_cards s (map fst lg @ wait_calls u t @ grace_calls))"
  let ?lg1 = "lg @ succeeded (wait_calls u t @ grace_calls @ [QuerySelectorAll, BrowserClose])"
  have ks: "[1..n] = 1 # [2..n]" using a by (simp add: upto_rec1)
  have "retry_loop s u t [1..n] None lg = (Inr (Returned ?d), ?lg1)"
    unfolding ks by (rule retry_loop_grace [OF assms])
  moreover have "map fst ?lg1 =
      setup_calls t @ wait_calls u t @ grace_calls @ [QuerySelectorAll, BrowserClose]"
    using a by (simp add: succeeded_def comp_def)
  ultimately have "scrape_with_playwright s u n t [] = (Inr ?d, ?lg1 @ [(PlaywrightStop, None)])"
    using a scrape_returned [of s t u n ?d ?lg1] by simp
  then show "scrape_with_playwright s u n t [] =
            (Inr (parse_cards (dom_cards s (map fst lg @ wait_calls u t @ grace_calls))),
             lg @ succeeded (wait_calls u t @ grace_calls @ [QuerySelectorAll, BrowserClose])
                @ [(PlaywrightStop, None)])"
    by simp
qed


lemma parent_OUT_CSV: "path_parent OUT_CSV = ustr ''output''"
  by (simp add: path_parent_def OUT_CSV_def slash_def ustr_def Let_def)

lemma attempts3: "[1..3] = [1, 2, 3::int]"
  by (simp add: upto_rec1)

lemma main_offline:
  "main session_offline [] =
     (Inl (OtherError (ustr ''net::ERR_NAME_NOT_RESOLVED'')),
      succeeded (setup_calls 70000) @
      [(Goto SEARCH_URL 70000, Some (OtherError (ustr ''net::ERR_NAME_NOT_RESOLVED''))),
       (PlaywrightStop, None)])"
  unfolding main_def scrape_with_playwright_def attempts3
  by (simp add: with_block_def bind_def perform_def session_offline_def attempt_body_def
      succeeded_def setup_calls_def)

lemma grace_cards: "parse_cards [card_montreal] \<noteq> []"
  by (simp add: parse_cards_Cons card_montreal_def)

lemma grace_hyps:
  "all_succeed session_grace h cs"
  "parse_cards (dom_cards session_grace
     (map fst (succeeded (setup_calls 70000)) @ wait_calls SEARCH_URL 70000)) = []"
  "parse_cards (dom_cards session_grace
     (map fst (succeeded (setup_calls 70000)) @ wait_calls SEARCH_URL 70000 @ grace_calls))
     = parse_cards [card_montreal]"
proof -
  show "all_succeed session_grace h cs"
    by (induction cs arbitrary: h) (simp_all add: session_grace_def)
  show "parse_cards (dom_cards session_grace
     (map fst (succeeded (setup_calls 70000)) @ wait_calls SEARCH_URL 70000)) = []"
    by (simp add: session_grace_def succeeded_def setup_calls_def wait_calls_def parse_cards_Nil)
  show "parse_cards (dom_cards session_grace
     (map fst (succeeded (setup_calls 70000)) @ wait_calls SEARCH_URL 70000 @ grace_calls))
     = parse_cards [card_montreal]"
    by (simp add: session_grace_def grace_calls_def)
qed

lemma scrape_grace_run:
  "scrape_with_playwright session_grace SEARCH_URL 3 70000 [] =
     (Inr (parse_cards [card_montreal]),
      succeeded (setup_calls 70000) @
      succeeded (wait_calls SEARCH_URL 70000 @ grace_calls @ [QuerySelectorAll, BrowserClose]) @
      [(PlaywrightStop, None)])"
proof -
  let ?lg = "succeeded (setup_calls 70000)"
  let ?lg1 = "?lg @ succeeded (wait_calls SEARCH_URL 70000 @ grace_calls @ [QuerySelectorAll, BrowserClose])"
  have ne: "parse_cards (dom_cards session_grace
     (map fst ?lg @ wait_calls SEARCH_URL 70000 @ grace_calls)) \<noteq> []"
    unfolding grace_hyps(3) by (rule grace_cards)
  have "retry_loop session_grace SEARCH_URL 70000 (1 # [2, 3]) None ?lg =
      (Inr (Returned (parse_cards (dom_cards session_grace
          (map fst ?lg @ wait_calls SEARCH_URL 70000 @ grace_calls)))), ?lg1)"
    by (rule retry_loop_grace [OF grace_hyps(1) grace_hyps(2) ne])
  then have "retry_loop session_grace SEARCH_URL 70000 [1..3] None ?lg =
      (Inr (Returned (parse_cards [card_montreal])), ?lg1)"
    by (simp only: grace_hyps(3) attempts3)
  from scrape_returned [OF grace_hyps(1) this]
  show ?thesis by (simp add: session_grace_def)
qed

theorem grace_recheck_same_attempt_witness:
  "scrape_with_playwright session_grace SEARCH_URL 3 70000 [] =
     (Inr (parse_cards [card_montreal]),
      succeeded (setup_calls 70000) @
      succeeded (wait_calls SEARCH_URL 70000 @ grace_calls @ [QuerySelectorAll, BrowserClose]) @
      [(PlaywrightStop, None)]) \<and>
   parse_cards [card_montreal] \<noteq> [] \<and>
   gotos (succeeded (wait_calls SEARCH_URL 70000 @ grace_calls @ [QuerySelectorAll, BrowserClose])) = 1"
proof -
  let ?lg = "succeeded (setup_calls 70000)"
  have ne: "parse_cards (dom_cards session_grace
     (map fst ?lg @ wait_calls SEARCH_URL 70000 @ grace_calls)) \<noteq> []"
    unfolding grace_hyps(3) by (rule grace_cards)
  have stop: "raises session_grace
      (setup_calls 70000 @ wait_calls SEARCH_URL 70000 @ grace_calls @ [QuerySelectorAll, BrowserClose])
      PlaywrightStop = None"
    by (simp add: session_grace_def)
  have pre: "(1::int) \<le> 3 \<and> ?lg = succeeded (setup_calls 70000) \<and>
      all_succeed session_grace [] (setup_calls 70000) \<and>
      raises session_grace
        (setup_calls 70000 @ wait_calls SEARCH_URL 70000 @ grace_calls @ [QuerySelectorAll, BrowserClose])
        PlaywrightStop = None"
    using stop grace_hyps(1) by simp
  note th = grace_recheck_same_attempt [OF grace_hyps(1) grace_hyps(2) ne, of 1 "[2, 3]" None 3]
  from th have g: "gotos (succeeded (wait_calls SEARCH_URL 70000 @ grace_calls @ [QuerySelectorAll, BrowserClose])) = 1"
    by blast
  from th pre have "scrape_with_playwright session_grace SEARCH_URL 3 70000 [] =
      (Inr (parse_cards (dom_cards session_grace
          (map fst ?lg @ wait_calls SEARCH_URL 70000 @ grace_calls))),
       ?lg @ succeeded (wait_calls SEARCH_URL 70000 @ grace_calls @ [QuerySelectorAll, BrowserClose])
           @ [(PlaywrightStop, None)])"
    by blast
  then have "scrape_with_playwright session_grace SEARCH_URL 3 70000 [] =
     (Inr (parse_cards [card_montreal]),
      ?lg @ succeeded (wait_calls SEARCH_URL 70000 @ grace_calls @ [QuerySelectorAll, BrowserClose]) @
      [(PlaywrightStop, None)])"
    by (simp only: grace_hyps(3))
  then show ?thesis using grace_cards g by blast
qed

lemma flaky_hyps:
  "\<forall>h c. \<not> is_recovery_call c \<longrightarrow> raises session_flaky_recovery h c = None"
  "\<forall>h. parse_cards (dom_cards session_flaky_recovery h) = []"
  "\<forall>h c. \<not> is_recovery_call c \<longrightarrow>
      raises session_flaky_recovery h c = raises session_always_empty h c"
  "\<forall>h. dom_cards session_flaky_recovery h = dom_cards session_always_empty h"
  "\<forall>h c. \<not> is_recovery_call c \<longrightarrow> raises session_always_empty h c = None"
  "\<forall>h. parse_cards (dom_cards session_always_empty h) = []"
  by (simp_all add: session_flaky_recovery_def session_always_empty_def parse_cards_Nil)


lemma close_calls_simps [simp]:
  "close_calls [] = 0"
  "close_calls (lg @ lg') = close_calls lg + close_calls lg'"
  "close_calls ((c, x) # lg) = (if c = BrowserClose then 1 else 0) + close_calls lg"
  by (simp_all add: close_calls_def)

lemma stop_calls_simps [simp]:
  "stop_calls [] = 0"
  "stop_calls (lg @ lg') = stop_calls lg + stop_calls lg'"
  "stop_calls ((c, x) # lg) = (if c = PlaywrightStop then 1 else 0) + stop_calls lg"
  by (simp_all add: stop_calls_def)

lemma attempt_body_counts:
  assumes "attempt_body s u t lg = (r, lg')"
  shows "\<exists>ext. lg' = lg @ ext \<and> file_calls ext = [] \<and> stop_calls ext = 0 \<and> gotos ext = 1 \<and>
           close_calls ext \<le> 1 \<and>
           closes ext = (case r of Inr d \<Rightarrow> 1 | Inl e \<Rightarrow> 0) \<and>
           (\<forall>e. r = Inl e \<longrightarrow> raised_in e ext \<or> e = NO_CARDS) \<and>
           (\<forall>d. r = Inr d \<longrightarrow> d \<noteq> [])"
  using assms
  unfolding attempt_body_def page_parse_cards_def debug_screenshot_def DEBUG_HEADED_def NO_CARDS_def
  by (auto simp: bind_def perform_def return_def raise_def split: option.splits if_splits)

lemma loop_exits_returned: "d \<noteq> [] \<Longrightarrow> closes ext = 1 \<Longrightarrow> loop_exits s u t ks le (Inr (Returned d)) lg' ext"
  by (simp add: loop_exits_def)

lemma loop_exits_raised: "raised_in e ext \<Longrightarrow> closes ext = 0 \<Longrightarrow> loop_exits s u t ks le (Inl e) lg' ext"
  by (simp add: loop_exits_def)

lemma loop_exits_nil: "loop_exits s u t [] le (Inr (Exhausted le)) lg' []"
  by (simp add: loop_exits_def)

lemma loop_exits_cons:
  assumes "loop_exits s u t rest (Some e) r lg' ext2"
    and "attempt_body s u t lg = (Inl e, lg1)" "caught e"
    and "lg' = lg1 @ [(Screenshot (error_snapshot_path k), x), (Reload t, y)] @ ext2"
    and "closes pre = 0" "gotos pre = 1"
    and "ext = pre @ [(Screenshot (error_snapshot_path k), x), (Reload t, y)] @ ext2"
  shows "loop_exits s u t (k # rest) le r lg' ext"
proof -
  from assms(1) consider
      (ret) d where "r = Inr (Returned d)" "d \<noteq> []" "closes ext2 = 1"
    | (exh) le' where "r = Inr (Exhausted le')" "closes ext2 = 0" "gotos ext2 = length rest"
        "rest = [] \<longrightarrow> le' = Some e \<and> ext2 = []"
        "rest \<noteq> [] \<longrightarrow>
            (\<exists>lg2 lg3 x y e. attempt_body s u t lg2 = (Inl e, lg3) \<and> caught e \<and> le' = Some e \<and>
               lg' = lg3 @ [(Screenshot (error_snapshot_path (last rest)), x), (Reload t, y)])"
    | (err) e' where "r = Inl e'" "raised_in e' ext2" "closes ext2 = 0"
    unfolding loop_exits_def by blast
  then show ?thesis
  proof cases
    case ret
    then show ?thesis using assms(5,7) by (simp add: loop_exits_def)
  next
    case err
    then show ?thesis using assms(5,7) by (simp add: loop_exits_def)
  next
    case exh
    have w: "\<exists>lg2 lg3 x y e. attempt_body s u t lg2 = (Inl e, lg3) \<and> caught e \<and> le' = Some e \<and>
             lg' = lg3 @ [(Screenshot (error_snapshot_path (last (k # rest))), x), (Reload t, y)]"
    proof (cases "rest = []")
      case True
      then have "le' = Some e" "lg' = lg1 @ [(Screenshot (error_snapshot_path k), x), (Reload t, y)]"
        using exh(4) assms(4) by simp_all
      then show ?thesis using assms(2,3) True by auto
    next
      case False
      then show ?thesis using exh(5) by simp
    qed
    have "closes ext = 0" "gotos ext = length (k # rest)"
      using exh(2,3) assms(5,6,7) by simp_all
    then show ?thesis using exh(1) w by (simp add: loop_exits_def)
  qed
qed

lemma retry_loop_cases:
  "retry_loop s u t ks le lg = (r, lg') \<Longrightarrow>
     \<exists>ext. lg' = lg @ ext \<and> file_calls ext = [] \<and> stop_calls ext = 0 \<and>
       close_calls ext \<le> gotos ext \<and> loop_exits s u t ks le r lg' ext"
proof (induction ks arbitrary: le lg)
  case Nil
  then have "r = Inr (Exhausted le)" "lg' = lg" by simp_all
  then show ?case using loop_exits_nil by simp
next
  case (Cons k rest)
  obtain r1 lg1 where a: "attempt_body s u t lg = (r1, lg1)" by (cases "attempt_body s u t lg")
  obtain ext1 where e1: "lg1 = lg @ ext1" "file_calls ext1 = []" "stop_calls ext1 = 0"
      "gotos ext1 = 1" "close_calls ext1 \<le> 1"
      "closes ext1 = (case r1 of Inr d \<Rightarrow> 1 | Inl e \<Rightarrow> 0)"
      "\<forall>e. r1 = Inl e \<longrightarrow> raised_in e ext1 \<or> e = NO_CARDS"
      "\<forall>d. r1 = Inr d \<longrightarrow> d \<noteq> []"
    using attempt_body_counts [OF a] by blast
  show ?case
  proof (cases r1)
    case (Inr d)
    have ab: "attempt_body s u t lg = (Inr d, lg1)" using a Inr by simp
    have rr: "r = Inr (Returned d)" "lg' = lg1" using Cons.prems by (simp_all add: ab)
    have "loop_exits s u t (k # rest) le r lg' ext1"
      unfolding rr(1) using e1(6,8) Inr by (intro loop_exits_returned) simp_all
    moreover have "close_calls ext1 \<le> gotos ext1" using e1(4,5) by simp
    ultimately show ?thesis using rr(2) e1(1,2,3) by blast
  next
    case (Inl e)
    have ab: "attempt_body s u t lg = (Inl e, lg1)" using a Inl by simp
    have c1: "closes ext1 = 0" using e1(6) Inl by simp
    show ?thesis
    proof (cases "caught e")
      case False
      then have rr: "r = Inl e" "lg' = lg1" using Cons.prems by (simp_all add: ab)
      have "raised_in e ext1" using e1(7) Inl False caught_NO_CARDS by auto
      then have "loop_exits s u t (k # rest) le r lg' ext1"
        unfolding rr(1) using c1 by (rule loop_exits_raised)
      moreover have "close_calls ext1 \<le> gotos ext1" using e1(4,5) by simp
      ultimately show ?thesis using rr(2) e1(1,2,3) by blast
    next
      case True
      define lg2 where "lg2 = snd (recover s k t lg1)"
      have rec: "recover s k t lg1 = (Inr (), lg2)" unfolding lg2_def by (simp add: recover_eq)
      obtain x y where lg2: "lg2 = lg1 @ [(Screenshot (error_snapshot_path k), x), (Reload t, y)]"
        unfolding lg2_def by (simp add: recover_eq)
      have rl: "retry_loop s u t rest (Some e) lg2 = (r, lg')"
        using Cons.prems True by (simp add: ab rec bind_def)
      obtain ext2 where e2: "lg' = lg2 @ ext2" "file_calls ext2 = []" "stop_calls ext2 = 0"
          "close_calls ext2 \<le> gotos ext2" "loop_exits s u t rest (Some e) r lg' ext2"
        using Cons.IH [OF rl] by blast
      define ext where "ext = ext1 @ [(Screenshot (error_snapshot_path k), x), (Reload t, y)] @ ext2"
      have A: "lg' = lg @ ext" using e1(1) e2(1) lg2 by (simp add: ext_def)
      have B: "file_calls ext = []" "stop_calls ext = 0" "close_calls ext \<le> gotos ext"
        using e1(2,3,4,5) e2(2,3,4) by (simp_all add: ext_def)
      have "lg' = lg1 @ [(Screenshot (error_snapshot_path k), x), (Reload t, y)] @ ext2"
        using e2(1) lg2 by simp
      then have L: "loop_exits s u t (k # rest) le r lg' ext"
        using loop_exits_cons [OF e2(5) ab True _ c1 e1(4) ext_def] by blast
      show ?thesis using A B L by blast
    qed
  qed
qed

lemma body_exits_returned: "d \<noteq> [] \<Longrightarrow> closes ext = 1 \<Longrightarrow> body_exits s u n t (Inr d) lgb ext"
  by (simp add: body_exits_def)

lemma body_exits_raised: "raised_in e ext \<Longrightarrow> closes ext = 0 \<Longrightarrow> body_exits s u n t (Inl e) lgb ext"
  by (simp add: body_exits_def)

lemma body_exits_exhausted:
  assumes "closes ext = 1" "gotos ext = nat n" "n < 1 \<longrightarrow> le = None"
    and "1 \<le> n \<longrightarrow>
            (\<exists>lg2 lg3 x y e. attempt_body s u t lg2 = (Inl e, lg3) \<and> caught e \<and> le = Some e \<and>
               lgb = lg3 @ [(Screenshot (error_snapshot_path n), x), (Reload t, y),
                            (BrowserClose, None)])"
  shows "body_exits s u n t (Inl (RuntimeError (failed_message n le))) lgb ext"
  unfolding body_exits_def
  by (rule disjI2, rule disjI1, rule exI [of _ le]) (simp add: assms)

lemma body_exits_prepend:
  assumes "body_exits s u n t rb lgb ext" "closes pre = 0" "gotos pre = 0"
  shows "body_exits s u n t rb lgb (pre @ ext)"
proof -
  have c: "closes (pre @ ext) = closes ext" "gotos (pre @ ext) = gotos ext"
    using assms(2,3) by simp_all
  from assms(1) consider
      (ret) d where "rb = Inr d" "d \<noteq> []" "closes ext = 1"
    | (exh) le where "rb = Inl (RuntimeError (failed_message n le))" "closes ext = 1"
        "gotos ext = nat n" "n < 1 \<longrightarrow> le = None"
        "1 \<le> n \<longrightarrow>
            (\<exists>lg2 lg3 x y e. attempt_body s u t lg2 = (Inl e, lg3) \<and> caught e \<and> le = Some e \<and>
               lgb = lg3 @ [(Screenshot (error_snapshot_path n), x), (Reload t, y),
                            (BrowserClose, None)])"
    | (err) e where "rb = Inl e" "raised_in e ext" "closes ext = 0"
    unfolding body_exits_def by (elim disjE exE conjE) auto
  then show ?thesis
  proof cases
    case ret
    show ?thesis unfolding ret(1) using ret(2,3) c by (intro body_exits_returned) simp_all
  next
    case exh
    show ?thesis unfolding exh(1) using exh(2,3,4,5) c by (intro body_exits_exhausted) simp_all
  next
    case err
    show ?thesis unfolding err(1) using err(2,3) c by (intro body_exits_raised) simp_all
  qed
qed

lemma attempts_length: "length [1..n] = nat n"
  by simp

lemma attempts_none: "n < 1 \<Longrightarrow> [1..n] = []"
  by simp

lemma attempts_some: "1 \<le> n \<Longrightarrow> [1..n] \<noteq> []"
  by simp

lemma attempts_last: "1 \<le> n \<Longrightarrow> last [1..n] = n"
  by (subst upto_rec2) simp_all

lemma loop_tail_cases:
  assumes "bind (retry_loop s u t [1..n] None)
             (\<lambda>ex. case ex of
                      Returned data \<Rightarrow> return data
                    | Exhausted last_error \<Rightarrow>
                        bind (perform s BrowserClose) (\<lambda>u.
                        raise (RuntimeError (failed_message n last_error)))) lg1 = (rb, lgb)"
  shows "\<exists>ext. lgb = lg1 @ ext \<and> file_calls ext = [] \<and> stop_calls ext = 0 \<and>
           close_calls ext \<le> gotos ext + 1 \<and> body_exits s u n t rb lgb ext"
proof -
  define ks where "ks = [1..n]"
  have ks: "length ks = nat n" "n < 1 \<Longrightarrow> ks = []" "1 \<le> n \<Longrightarrow> ks \<noteq> []"
      "1 \<le> n \<Longrightarrow> last ks = n"
    unfolding ks_def
    by (rule attempts_length, erule attempts_none, erule attempts_some, erule attempts_last)
  obtain r lg' where rl: "retry_loop s u t ks None lg1 = (r, lg')"
    by (cases "retry_loop s u t ks None lg1")
  have run: "(case r of Inl e \<Rightarrow> (Inl e, lg')
              | Inr ex \<Rightarrow> (case ex of
                      Returned data \<Rightarrow> return data
                    | Exhausted last_error \<Rightarrow>
                        bind (perform s BrowserClose) (\<lambda>u.
                        raise (RuntimeError (failed_message n last_error)))) lg') = (rb, lgb)"
    using assms rl unfolding ks_def [symmetric] by (simp add: bind_def)
  obtain ext where e: "lg' = lg1 @ ext" "file_calls ext = []" "stop_calls ext = 0"
      "close_calls ext \<le> gotos ext" "loop_exits s u t ks None r lg' ext"
    using retry_loop_cases [OF rl] by blast
  from e(5) consider
      (ret) d where "r = Inr (Returned d)" "d \<noteq> []" "closes ext = 1"
    | (exh) le' where "r = Inr (Exhausted le')" "closes ext = 0" "gotos ext = length ks"
        "ks = [] \<longrightarrow> le' = None \<and> ext = []"
        "ks \<noteq> [] \<longrightarrow>
            (\<exists>lg2 lg3 x y e. attempt_body s u t lg2 = (Inl e, lg3) \<and> caught e \<and> le' = Some e \<and>
               lg' = lg3 @ [(Screenshot (error_snapshot_path (last ks)), x), (Reload t, y)])"
    | (err) e' where "r = Inl e'" "raised_in e' ext" "closes ext = 0"
    unfolding loop_exits_def by blast
  then show ?thesis
  proof cases
    case ret
    then have "rb = Inr d" "lgb = lg'" using run by (simp_all add: return_def)
    moreover have "body_exits s u n t (Inr d) lg' ext" using ret(2,3) by (rule body_exits_returned)
    ultimately show ?thesis using e(1,2,3,4) by auto
  next
    case err
    then have "rb = Inl e'" "lgb = lg'" using run by simp_all
    moreover have "body_exits s u n t (Inl e') lg' ext" using err(2,3) by (rule body_exits_raised)
    ultimately show ?thesis using e(1,2,3,4) by auto
  next
    case exh
    show ?thesis
    proof (cases "raises s (map fst lg') BrowserClose")
      case (Some e')
      define ext' where "ext' = ext @ [(BrowserClose, Some e')]"
      have "rb = Inl e'" "lgb = lg' @ [(BrowserClose, Some e')]"
        using run exh(1) Some by (simp_all add: bind_def perform_def)
      moreover have "body_exits s u n t (Inl e') (lg' @ [(BrowserClose, Some e')]) ext'"
        using exh(2) by (intro body_exits_raised) (simp_all add: ext'_def)
      moreover have "lg' @ [(BrowserClose, Some e')] = lg1 @ ext'" using e(1) by (simp add: ext'_def)
      moreover have "file_calls ext' = []" "stop_calls ext' = 0" "close_calls ext' \<le> gotos ext' + 1"
        using e(2,3,4) by (simp_all add: ext'_def)
      ultimately show ?thesis by blast
    next
      case None
      define ext' where "ext' = ext @ [(BrowserClose, None)]"
      have res: "rb = Inl (RuntimeError (failed_message n le'))" "lgb = lg' @ [(BrowserClose, None)]"
        using run exh(1) None by (simp_all add: bind_def perform_def raise_def)
      have cnt: "closes ext' = 1" "gotos ext' = nat n"
        using exh(2,3) ks(1) by (simp_all add: ext'_def)
      have small: "n < 1 \<longrightarrow> le' = None" using ks(2) exh(4) by simp
      have big: "1 \<le> n \<longrightarrow>
            (\<exists>lg2 lg3 x y e. attempt_body s u t lg2 = (Inl e, lg3) \<and> caught e \<and> le' = Some e \<and>
               lgb = lg3 @ [(Screenshot (error_snapshot_path n), x), (Reload t, y),
                            (BrowserClose, None)])"
      proof
        assume "1 \<le> n"
        then have "ks \<noteq> []" "last ks = n" using ks(3,4) by blast+
        then obtain lg2 lg3 x y e where w: "attempt_body s u t lg2 = (Inl e, lg3)" "caught e"
            "le' = Some e" "lg' = lg3 @ [(Screenshot (error_snapshot_path n), x), (Reload t, y)]"
          using exh(5) by auto
        have "lgb = lg3 @ [(Screenshot (error_snapshot_path n), x), (Reload t, y), (BrowserClose, None)]"
          using res(2) w(4) by simp
        then show "\<exists>lg2 lg3 x y e. attempt_body s u t lg2 = (Inl e, lg3) \<and> caught e \<and> le' = Some e \<and>
               lgb = lg3 @ [(Screenshot (error_snapshot_path n), x), (Reload t, y),
                            (BrowserClose, None)]"
          using w(1,2,3) by blast
      qed
      have "body_exits s u n t rb lgb ext'"
        unfolding res(1) using cnt small big by (rule body_exits_exhausted)
      moreover have "lgb = lg1 @ ext'" using e(1) res(2) by (simp add: ext'_def)
      moreover have "file_calls ext' = []" "stop_calls ext' = 0" "close_calls ext' \<le> gotos ext' + 1"
        using e(2,3,4) by (simp_all add: ext'_def)
      ultimately show ?thesis by blast
    qed
  qed
qed

lemma seq_then_cases:
  "seq_then s cs m lg0 = (rb, lgb) \<Longrightarrow>
     (\<exists>e pre c. rb = Inl e \<and> lgb = lg0 @ succeeded pre @ [(c, Some e)] \<and> set (c # pre) \<subseteq> set cs) \<or>
     m (lg0 @ succeeded cs) = (rb, lgb)"
proof (induction cs arbitrary: lg0)
  case Nil
  then show ?case by (simp add: succeeded_def)
next
  case (Cons c cs)
  show ?case
  proof (cases "raises s (map fst lg0) c")
    case (Some e)
    then have "rb = Inl e" "lgb = lg0 @ succeeded [] @ [(c, Some e)]"
      using Cons.prems by (simp_all add: bind_def perform_def succeeded_def)
    then have "\<exists>e pre c'. rb = Inl e \<and> lgb = lg0 @ succeeded pre @ [(c', Some e)] \<and>
        set (c' # pre) \<subseteq> set (c # cs)"
      by (intro exI [of _ e] exI [of _ "[]"] exI [of _ c]) simp
    then show ?thesis by blast
  next
    case None
    then have run: "seq_then s cs m (lg0 @ [(c, None)]) = (rb, lgb)"
      using Cons.prems by (simp add: bind_def perform_def)
    from Cons.IH [OF run] show ?thesis
    proof
      assume "\<exists>e pre c'. rb = Inl e \<and> lgb = (lg0 @ [(c, None)]) @ succeeded pre @ [(c', Some e)] \<and>
          set (c' # pre) \<subseteq> set cs"
      then obtain e pre c' where w: "rb = Inl e"
          "lgb = (lg0 @ [(c, None)]) @ succeeded pre @ [(c', Some e)]" "set (c' # pre) \<subseteq> set cs"
        by blast
      have "lgb = lg0 @ succeeded (c # pre) @ [(c', Some e)]" using w(2) by (simp add: succeeded_def)
      moreover have "set (c' # c # pre) \<subseteq> set (c # cs)" using w(3) by auto
      ultimately have "\<exists>e pre c'. rb = Inl e \<and> lgb = lg0 @ succeeded pre @ [(c', Some e)] \<and>
          set (c' # pre) \<subseteq> set (c # cs)"
        using w(1) by blast
      then show ?thesis by blast
    next
      assume "m ((lg0 @ [(c, None)]) @ succeeded cs) = (rb, lgb)"
      then have "m (lg0 @ succeeded (c # cs)) = (rb, lgb)" by (simp add: succeeded_def)
      then show ?thesis by blast
    qed
  qed
qed

lemma plain_counts:
  "\<forall>c\<in>set cs. plain c \<Longrightarrow>
     file_calls (succeeded cs) = [] \<and> stop_calls (succeeded cs) = 0 \<and>
     close_calls (succeeded cs) = 0 \<and> gotos (succeeded cs) = 0 \<and> closes (succeeded cs) = 0"
  by (induction cs) (simp_all add: succeeded_def)

lemma setup_rest_plain: "\<forall>c\<in>set (setup_rest t). plain c"
  by (simp add: setup_rest_def)

lemma session_body_seq:
  "session_body s u n t =
     seq_then s (setup_rest t)
       (bind (retry_loop s u t [1..n] None)
          (\<lambda>ex. case ex of
                   Returned data \<Rightarrow> return data
                 | Exhausted last_error \<Rightarrow>
                     bind (perform s BrowserClose) (\<lambda>u.
                     raise (RuntimeError (failed_message n last_error)))))"
  by (simp add: session_body_def setup_rest_def)

lemma session_body_cases:
  assumes "session_body s u n t lg0 = (rb, lgb)"
  shows "\<exists>ext. lgb = lg0 @ ext \<and> file_calls ext = [] \<and> stop_calls ext = 0 \<and>
           close_calls ext \<le> gotos ext + 1 \<and> body_exits s u n t rb lgb ext"
proof -
  let ?m = "bind (retry_loop s u t [1..n] None)
          (\<lambda>ex. case ex of
                   Returned data \<Rightarrow> return data
                 | Exhausted last_error \<Rightarrow>
                     bind (perform s BrowserClose) (\<lambda>u.
                     raise (RuntimeError (failed_message n last_error))))"
  have run: "seq_then s (setup_rest t) ?m lg0 = (rb, lgb)"
    using assms by (simp only: session_body_seq)
  from seq_then_cases [OF run] show ?thesis
  proof
    assume "\<exists>e pre c. rb = Inl e \<and> lgb = lg0 @ succeeded pre @ [(c, Some e)] \<and>
        set (c # pre) \<subseteq> set (setup_rest t)"
    then obtain e pre c where w: "rb = Inl e" "lgb = lg0 @ succeeded pre @ [(c, Some e)]"
        "set (c # pre) \<subseteq> set (setup_rest t)"
      by blast
    have pc: "plain c" "\<forall>c\<in>set pre. plain c" using w(3) setup_rest_plain [of t] by auto
    define ext where "ext = succeeded pre @ [(c, Some e)]"
    have cnt: "file_calls ext = []" "stop_calls ext = 0" "close_calls ext = 0" "closes ext = 0"
      using plain_counts [OF pc(2)] pc(1) by (simp_all add: ext_def)
    have "raised_in e ext" by (simp add: ext_def)
    then have "body_exits s u n t rb lgb ext" unfolding w(1) using cnt(4) by (rule body_exits_raised)
    moreover have "lgb = lg0 @ ext" using w(2) by (simp add: ext_def)
    ultimately show ?thesis using cnt by auto
  next
    assume "?m (lg0 @ succeeded (setup_rest t)) = (rb, lgb)"
    from loop_tail_cases [OF this]
    obtain ext2 where e2: "lgb = (lg0 @ succeeded (setup_rest t)) @ ext2" "file_calls ext2 = []"
        "stop_calls ext2 = 0" "close_calls ext2 \<le> gotos ext2 + 1" "body_exits s u n t rb lgb ext2"
      by blast
    note z = plain_counts [OF setup_rest_plain, of t]
    define ext where "ext = succeeded (setup_rest t) @ ext2"
    have "body_exits s u n t rb lgb ext"
      unfolding ext_def using e2(5) z by (intro body_exits_prepend) simp_all
    moreover have "lgb = lg0 @ ext" using e2(1) by (simp add: ext_def)
    moreover have "file_calls ext = []" "stop_calls ext = 0" "close_calls ext \<le> gotos ext + 1"
      using e2(2,3,4) z by (simp_all add: ext_def)
    ultimately show ?thesis by blast
  qed
qed

lemma scrape_with_block:
  "scrape_with_playwright s u n t =
     with_block s PlaywrightStart PlaywrightStop (session_body s u n t)"
  by (simp add: scrape_with_playwright_def session_body_def)

lemma with_block_cases:
  assumes "with_block s enter leave body lg = (r, lg')"
  shows "(\<exists>e. raises s (map fst lg) enter = Some e \<and> r = Inl e \<and> lg' = lg @ [(enter, Some e)]) \<or>
         (raises s (map fst lg) enter = None \<and>
          (\<exists>rb lgb. body (lg @ [(enter, None)]) = (rb, lgb) \<and>
             ((r = rb \<and> lg' = lgb @ [(leave, None)]) \<or>
              (\<exists>e. r = Inl e \<and> lg' = lgb @ [(leave, Some e)]))))"
proof (cases "raises s (map fst lg) enter")
  case (Some e)
  then show ?thesis using assms by (simp add: with_block_def perform_def)
next
  case None
  obtain rb lgb where b: "body (lg @ [(enter, None)]) = (rb, lgb)"
    by (cases "body (lg @ [(enter, None)])")
  show ?thesis
  proof (cases "raises s (map fst lgb) leave")
    case (Some e)
    then have "r = Inl e" "lg' = lgb @ [(leave, Some e)]"
      using assms None b by (simp_all add: with_block_def perform_def)
    then show ?thesis using None b by blast
  next
    case N2: None
    then have "r = rb" "lg' = lgb @ [(leave, None)]"
      using assms None b by (simp_all add: with_block_def perform_def)
    then show ?thesis using None b by blast
  qed
qed


lemma failed_message_text:
  "failed_message n le =
     ustr ''Failed after '' @ str_int n @ ustr '' attempts: '' @
     (case le of None \<Rightarrow> ustr ''None'' | Some e \<Rightarrow> exn_str e)"
  by (simp add: failed_message_def)

lemma str_int_3: "str_int 3 = ustr ''3''"
  by (simp add: str_int_def str_nat.simps ustr_def)

lemma failed_message_3: "failed_message 3 (Some e) = ustr ''Failed after 3 attempts: '' @ exn_str e"
  by (simp add: failed_message_def str_int_3 ustr_def)

lemma error_snapshot_path_3: "error_snapshot_path 3 = ustr ''output/page_error_attempt_3.png''"
  by (simp add: error_snapshot_path_def str_int_3 ustr_def)

lemma scrape_cases:
  assumes "scrape_with_playwright s u n t [] = (r, lg)"
  shows "(\<exists>e. raises s [] PlaywrightStart = Some e \<and> r = Inl e \<and> lg = [(PlaywrightStart, Some e)]) \<or>
         (raises s [] PlaywrightStart = None \<and>
          (\<exists>rb lgb ext. lgb = (PlaywrightStart, None) # ext \<and> file_calls ext = [] \<and>
             stop_calls ext = 0 \<and> close_calls ext \<le> gotos ext + 1 \<and>
             body_exits s u n t rb lgb ext \<and>
             ((r = rb \<and> lg = lgb @ [(PlaywrightStop, None)]) \<or>
              (\<exists>e. r = Inl e \<and> lg = lgb @ [(PlaywrightStop, Some e)]))))"
proof -
  have wb: "with_block s PlaywrightStart PlaywrightStop (session_body s u n t) [] = (r, lg)"
    using assms by (simp only: scrape_with_block)
  from with_block_cases [OF wb] show ?thesis
  proof
    assume "\<exists>e. raises s (map fst []) PlaywrightStart = Some e \<and> r = Inl e \<and>
        lg = [] @ [(PlaywrightStart, Some e)]"
    then show ?thesis by simp
  next
    assume b: "raises s (map fst []) PlaywrightStart = None \<and>
        (\<exists>rb lgb. session_body s u n t ([] @ [(PlaywrightStart, None)]) = (rb, lgb) \<and>
           ((r = rb \<and> lg = lgb @ [(PlaywrightStop, None)]) \<or>
            (\<exists>e. r = Inl e \<and> lg = lgb @ [(PlaywrightStop, Some e)])))"
    then obtain rb lgb where sb: "session_body s u n t [(PlaywrightStart, None)] = (rb, lgb)"
        and fin: "(r = rb \<and> lg = lgb @ [(PlaywrightStop, None)]) \<or>
            (\<exists>e. r = Inl e \<and> lg = lgb @ [(PlaywrightStop, Some e)])"
      by auto
    obtain ext where e: "lgb = [(PlaywrightStart, None)] @ ext" "file_calls ext = []"
        "stop_calls ext = 0" "close_calls ext \<le> gotos ext + 1" "body_exits s u n t rb lgb ext"
      using session_body_cases [OF sb] by blast
    have "lgb = (PlaywrightStart, None) # ext" using e(1) by simp
    then have "\<exists>rb lgb ext. lgb = (PlaywrightStart, None) # ext \<and> file_calls ext = [] \<and>
             stop_calls ext = 0 \<and> close_calls ext \<le> gotos ext + 1 \<and>
             body_exits s u n t rb lgb ext \<and>
             ((r = rb \<and> lg = lgb @ [(PlaywrightStop, None)]) \<or>
              (\<exists>e. r = Inl e \<and> lg = lgb @ [(PlaywrightStop, Some e)]))"
      using e(2,3,4,5) fin by blast
    moreover have "raises s [] PlaywrightStart = None" using b by simp
    ultimately show ?thesis by blast
  qed
qed


lemma save_calls_text:
  "save_calls data =
     [Mkdir (ustr ''output''), OpenWrite (ustr ''output/Workshop&country.csv''),
      WriteHeader [ustr ''Name'', ustr ''Address'', ustr ''Country'', ustr ''Type'',
                   ustr ''Latitude'', ustr ''Longitude''],
      WriteRows data, FileClose,
      Print (ustr ''Saved '' @ str_int (int (length data)) @
             ustr '' records to output/Workshop&country.csv'')]"
  by (simp add: save_calls_def OUT_CSV_def CSV_FIELDS_def saved_summary_def ustr_def)

lemma save_cases:
  assumes "bind (save_csv s data OUT_CSV) (\<lambda>u. perform s (Print (saved_summary data))) lg0 = (r, lg)"
  shows "(r = Inr () \<and> lg = lg0 @ succeeded (save_calls data)) \<or>
         (\<exists>e ext. r = Inl e \<and> lg = lg0 @ ext \<and> raised_in e ext \<and>
            set (map fst ext) \<subseteq> set (save_calls data))"
  using assms
  unfolding save_csv_def with_block_def succeeded_def save_calls_def parent_OUT_CSV
  by (auto simp: bind_def perform_def split: option.splits)

text \<open>
  Claim C8, amended. A run ends in one of four ways. It returns after a successful
  acquisition of a non-empty list of records, the creation of the directory, the writing of
  the header and of all rows, and the summary line \<open>Saved N records to
  output/Workshop&country.csv\<close>. Or it raises the controller's own \<open>Failed after 3
  attempts:\<close> followed by the message of the error that ended the third attempt, the last
  calls being the snapshot, the reload, the close and the driver shutdown; no call on the
  output file is made. Or the acquisition passes on an exception that a session call
  raised; no call on the output file is made. Or, after a successful acquisition, a call on
  the output file or the console raises and the exception is passed on: only then can a
  failed run have touched the output file.
\<close>

theorem main_outcomes:
  assumes "main s [] = (r, lg)"
  shows
   "(\<exists>data lg0. r = Inr () \<and> data \<noteq> [] \<and>
        scrape_with_playwright s SEARCH_URL 3 70000 [] = (Inr data, lg0) \<and>
        lg = lg0 @ succeeded
          [Mkdir (ustr ''output''), OpenWrite (ustr ''output/Workshop&country.csv''),
           WriteHeader [ustr ''Name'', ustr ''Address'', ustr ''Country'', ustr ''Type'',
                        ustr ''Latitude'', ustr ''Longitude''],
           WriteRows data, FileClose,
           Print (ustr ''Saved '' @ str_int (int (length data)) @
                  ustr '' records to output/Workshop&country.csv'')]) \<or>
    (\<exists>lg2 lg3 x y e. attempt_body s SEARCH_URL 70000 lg2 = (Inl e, lg3) \<and> caught e \<and>
        gotos lg3 = 3 \<and>
        lg = lg3 @ [(Screenshot (ustr ''output/page_error_attempt_3.png''), x), (Reload 70000, y),
                    (BrowserClose, None), (PlaywrightStop, None)] \<and>
        r = Inl (RuntimeError (ustr ''Failed after 3 attempts: '' @ exn_str e)) \<and>
        file_calls lg = []) \<or>
    (\<exists>e. r = Inl e \<and> raised_in e lg \<and> file_calls lg = [] \<and>
        scrape_with_playwright s SEARCH_URL 3 70000 [] = (Inl e, lg)) \<or>
    (\<exists>e data lg0 ext. r = Inl e \<and> data \<noteq> [] \<and>
        scrape_with_playwright s SEARCH_URL 3 70000 [] = (Inr data, lg0) \<and>
        lg = lg0 @ ext \<and> raised_in e ext \<and>
        set (map fst ext) \<subseteq> set
          [Mkdir (ustr ''output''), OpenWrite (ustr ''output/Workshop&country.csv''),
           WriteHeader [ustr ''Name'', ustr ''Address'', ustr ''Country'', ustr ''Type'',
                        ustr ''Latitude'', ustr ''Longitude''],
           WriteRows data, FileClose,
           Print (ustr ''Saved '' @ str_int (int (length data)) @
                  ustr '' records to output/Workshop&country.csv'')])"
  (is "?A \<or> ?B \<or> ?C \<or> ?D")
proof -
  obtain r0 lg0 where sc: "scrape_with_playwright s SEARCH_URL 3 70000 [] = (r0, lg0)"
    by (cases "scrape_with_playwright s SEARCH_URL 3 70000 []")
  from scrape_ext [OF sc]
  have fc: "file_calls lg0 = []" and ok: "\<forall>d. r0 = Inr d \<longrightarrow> d \<noteq> []"
    by auto
  show ?thesis
  proof (cases r0)
    case (Inr data)
    have sc': "scrape_with_playwright s SEARCH_URL 3 70000 [] = (Inr data, lg0)"
      using sc Inr by simp
    have ne: "data \<noteq> []" using ok Inr by simp
    have "bind (save_csv s data OUT_CSV) (\<lambda>u. perform s (Print (saved_summary data))) lg0 = (r, lg)"
      using assms sc' by (simp add: main_def bind_def)
    from save_cases [OF this] show ?thesis
    proof
      assume "r = Inr () \<and> lg = lg0 @ succeeded (save_calls data)"
      then have ?A using sc' ne unfolding save_calls_text by blast
      then show ?thesis by blast
    next
      assume "\<exists>e ext. r = Inl e \<and> lg = lg0 @ ext \<and> raised_in e ext \<and>
            set (map fst ext) \<subseteq> set (save_calls data)"
      then have ?D using sc' ne unfolding save_calls_text by blast
      then show ?thesis by blast
    qed
  next
    case (Inl e0)
    have sc': "scrape_with_playwright s SEARCH_URL 3 70000 [] = (Inl e0, lg0)"
      using sc Inl by simp
    have res: "r = Inl e0" "lg = lg0" using assms sc' by (simp_all add: main_def bind_def)
    have esc: "raised_in e0 lg0 \<Longrightarrow> ?C" using res fc sc' by simp
    from scrape_cases [OF sc'] show ?thesis
    proof
      assume "\<exists>e. raises s [] PlaywrightStart = Some e \<and> Inl e0 = Inl e \<and>
          lg0 = [(PlaywrightStart, Some e)]"
      then have "raised_in e0 lg0" by auto
      then show ?thesis using esc by blast
    next
      assume "raises s [] PlaywrightStart = None \<and>
          (\<exists>rb lgb ext. lgb = (PlaywrightStart, None) # ext \<and> file_calls ext = [] \<and>
             stop_calls ext = 0 \<and> close_calls ext \<le> gotos ext + 1 \<and>
             body_exits s SEARCH_URL 3 70000 rb lgb ext \<and>
             ((Inl e0 = rb \<and> lg0 = lgb @ [(PlaywrightStop, None)]) \<or>
              (\<exists>e. Inl e0 = Inl e \<and> lg0 = lgb @ [(PlaywrightStop, Some e)])))"
      then obtain rb lgb ext where e: "lgb = (PlaywrightStart, None) # ext"
          "body_exits s SEARCH_URL 3 70000 rb lgb ext"
          and fin: "(Inl e0 = rb \<and> lg0 = lgb @ [(PlaywrightStop, None)]) \<or>
              (\<exists>e. Inl e0 = Inl e \<and> lg0 = lgb @ [(PlaywrightStop, Some e)])"
        by blast
      from fin show ?thesis
      proof
        assume "\<exists>e. Inl e0 = Inl e \<and> lg0 = lgb @ [(PlaywrightStop, Some e)]"
        then have "raised_in e0 lg0" by auto
        then show ?thesis using esc by blast
      next
        assume f: "Inl e0 = rb \<and> lg0 = lgb @ [(PlaywrightStop, None)]"
        from e(2) consider
            (ret) d where "rb = Inr d"
          | (exh) le where "rb = Inl (RuntimeError (failed_message 3 le))" "gotos ext = nat 3"
              "\<exists>lg2 lg3 x y e. attempt_body s SEARCH_URL 70000 lg2 = (Inl e, lg3) \<and> caught e \<and>
                  le = Some e \<and>
                  lgb = lg3 @ [(Screenshot (error_snapshot_path 3), x), (Reload 70000, y),
                               (BrowserClose, None)]"
          | (err) e' where "rb = Inl e'" "raised_in e' ext"
          unfolding body_exits_def by (elim disjE exE conjE) auto
        then show ?thesis
        proof cases
          case ret
          then show ?thesis using f by simp
        next
          case err
          then have "raised_in e0 lg0" using f e(1) by auto
          then show ?thesis using esc by blast
        next
          case exh
          then obtain lg2 lg3 x y e' where w: "attempt_body s SEARCH_URL 70000 lg2 = (Inl e', lg3)"
              "caught e'" "le = Some e'"
              "lgb = lg3 @ [(Screenshot (error_snapshot_path 3), x), (Reload 70000, y),
                            (BrowserClose, None)]"
            by blast
          have g: "gotos lgb = 3" using exh(2) e(1) by simp
          have g3: "gotos lg3 = 3" using g unfolding w(4) by simp
          have lg: "lg = lg3 @ [(Screenshot (ustr ''output/page_error_attempt_3.png''), x),
                    (Reload 70000, y), (BrowserClose, None), (PlaywrightStop, None)]"
            using res(2) f w(4) by (simp add: error_snapshot_path_3)
          have rr: "r = Inl (RuntimeError (ustr ''Failed after 3 attempts: '' @ exn_str e'))"
            using res(1) f exh(1) w(3) by (simp add: failed_message_3)
          have "file_calls lg = []" using fc res(2) by simp
          then have ?B using w(1,2) g3 lg rr by blast
          then show ?thesis by blast
        qed
      qed
    qed
  qed
qed

lemma str_nat_decode: "foldl (\<lambda>a d. 10 * a + (d - 48)) 0 (str_nat n) = n"
proof (induction n rule: str_nat.induct)
  case (1 n)
  show ?case
  proof (cases "n < 10")
    case True
    then show ?thesis by (subst str_nat.simps) simp
  next
    case False
    then have "foldl (\<lambda>a d. 10 * a + (d - 48)) 0 (str_nat (n div 10)) = n div 10"
      using "1.IH" by simp
    then show ?thesis using False by (subst str_nat.simps) simp
  qed
qed

lemma str_int_decode: "0 \<le> n \<Longrightarrow> foldl (\<lambda>a d. 10 * a + (d - 48)) 0 (str_int n) = nat n"
  by (simp add: str_int_def str_nat_decode)

lemma str_int_2: "str_int 2 = ustr ''2''"
  by (simp add: str_int_def str_nat.simps ustr_def)

text \<open>
  Claim C6. When every extraction is empty and no call other than the error snapshot and
  the reload raises, \<open>scrape_with_playwright\<close> navigates exactly \<open>max_retries\<close> times
  (none when \<open>max_retries\<close> is below 1), closes the browser once, touches no output file
  and raises the single \<open>RuntimeError\<close> whose message is \<open>Failed after\<close>, the decimal
  digits of \<open>max_retries\<close>, \<open>attempts:\<close> and the message of the last attempt's error,
  \<open>No cards parsed (empty result).\<close> (\<open>None\<close> when no attempt ran). For three attempts
  it reads \<open>Failed after 3 attempts: No cards parsed (empty result).\<close>
\<close>

theorem always_empty_exhausts:
  assumes "\<forall>h c. \<not> is_recovery_call c \<longrightarrow> raises s h c = None"
    and "\<forall>h. parse_cards (dom_cards s h) = []"
  shows "fst (scrape_with_playwright s u n t []) =
           Inl (RuntimeError (ustr ''Failed after '' @ str_int n @ ustr '' attempts: '' @
                  (if n < 1 then ustr ''None'' else ustr ''No cards parsed (empty result).''))) \<and>
         (n = 3 \<longrightarrow> fst (scrape_with_playwright s u n t []) =
           Inl (RuntimeError (ustr ''Failed after 3 attempts: No cards parsed (empty result).''))) \<and>
         (0 \<le> n \<longrightarrow> foldl (\<lambda>a d. 10 * a + (d - 48)) 0 (str_int n) = nat n) \<and>
         gotos (snd (scrape_with_playwright s u n t [])) = nat n \<and>
         closes (snd (scrape_with_playwright s u n t [])) = 1 \<and>
         file_calls (snd (scrape_with_playwright s u n t [])) = []"
proof -
  note base = scrape_all_empty [OF assms, of u n t]
  have 1: "fst (scrape_with_playwright s u n t []) =
           Inl (RuntimeError (ustr ''Failed after '' @ str_int n @ ustr '' attempts: '' @
                  (if n < 1 then ustr ''None'' else ustr ''No cards parsed (empty result).'')))"
    using base by (simp add: failed_message_text)
  have 2: "n = 3 \<longrightarrow> fst (scrape_with_playwright s u n t []) =
           Inl (RuntimeError (ustr ''Failed after 3 attempts: No cards parsed (empty result).''))"
  proof
    assume n3: "n = 3"
    show "fst (scrape_with_playwright s u n t []) =
           Inl (RuntimeError (ustr ''Failed after 3 attempts: No cards parsed (empty result).''))"
      unfolding 1 unfolding n3 by (simp add: str_int_3 ustr_def)
  qed
  show ?thesis using 1 2 base str_int_decode [of n] by simp
qed

lemma attempt_body_direct:
  assumes "all_succeed s (map fst lg) (wait_calls u t @ [QuerySelectorAll, BrowserClose])"
    and "parse_cards (dom_cards s (map fst lg @ wait_calls u t)) \<noteq> []"
  shows "attempt_body s u t lg =
           (Inr (parse_cards (dom_cards s (map fst lg @ wait_calls u t))),
            lg @ succeeded (wait_calls u t @ [QuerySelectorAll, BrowserClose]))"
  using assms
  unfolding attempt_body_def page_parse_cards_def debug_screenshot_def DEBUG_HEADED_def
    succeeded_def wait_calls_def
  by (simp add: bind_def perform_def return_def)

lemma disk_full_quiet:
  "all_succeed session_disk_full h (setup_calls t)"
  "all_succeed session_disk_full h (wait_calls u t @ [QuerySelectorAll, BrowserClose])"
  by (simp_all add: session_disk_full_def setup_calls_def wait_calls_def)

lemma scrape_disk_full:
  "scrape_with_playwright session_disk_full SEARCH_URL 3 70000 [] =
     (Inr (parse_cards [card_montreal]),
      succeeded (setup_calls 70000) @
      succeeded (wait_calls SEARCH_URL 70000 @ [QuerySelectorAll, BrowserClose]) @
      [(PlaywrightStop, None)])"
proof -
  let ?lg = "succeeded (setup_calls 70000)"
  have d: "\<And>h. dom_cards session_disk_full h = [card_montreal]"
    by (simp add: session_disk_full_def)
  have "attempt_body session_disk_full SEARCH_URL 70000 ?lg =
      (Inr (parse_cards [card_montreal]),
       ?lg @ succeeded (wait_calls SEARCH_URL 70000 @ [QuerySelectorAll, BrowserClose]))"
    using attempt_body_direct [OF disk_full_quiet(2), of ?lg SEARCH_URL 70000] grace_cards
    by (simp add: d)
  then have "retry_loop session_disk_full SEARCH_URL 70000 [1..3] None ?lg =
      (Inr (Returned (parse_cards [card_montreal])),
       ?lg @ succeeded (wait_calls SEARCH_URL 70000 @ [QuerySelectorAll, BrowserClose]))"
    by (simp add: attempts3)
  from scrape_returned [OF disk_full_quiet(1) this]
  show ?thesis by (simp add: session_disk_full_def)
qed

lemma main_disk_full:
  "main session_disk_full [] =
     (Inl (OtherError (ustr ''[Errno 28] No space left on device'')),
      succeeded (setup_calls 70000) @
      succeeded (wait_calls SEARCH_URL 70000 @ [QuerySelectorAll, BrowserClose]) @
      [(PlaywrightStop, None), (Mkdir (ustr ''output''), None), (OpenWrite OUT_CSV, None),
       (WriteHeader CSV_FIELDS, None),
       (WriteRows (parse_cards [card_montreal]),
          Some (OtherError (ustr ''[Errno 28] No space left on device''))),
       (FileClose, None)])"
proof -
  have r: "\<And>h rows. raises session_disk_full h (WriteRows rows) =
              Some (OtherError (ustr ''[Errno 28] No space left on device''))"
    "\<And>h p. raises session_disk_full h (Mkdir p) = None"
    "\<And>h p. raises session_disk_full h (OpenWrite p) = None"
    "\<And>h fs. raises session_disk_full h (WriteHeader fs) = None"
    "\<And>h. raises session_disk_full h FileClose = None"
    by (simp_all add: session_disk_full_def)
  show ?thesis
    unfolding main_def
    by (simp add: bind_def scrape_disk_full save_csv_def with_block_def perform_def r
        parent_OUT_CSV)
qed

lemma scrape_offline:
  "scrape_with_playwright session_offline SEARCH_URL 3 70000 [] =
     (Inl (OtherError (ustr ''net::ERR_NAME_NOT_RESOLVED'')),
      succeeded (setup_calls 70000) @
      [(Goto SEARCH_URL 70000, Some (OtherError (ustr ''net::ERR_NAME_NOT_RESOLVED''))),
       (PlaywrightStop, None)])"
  unfolding scrape_with_playwright_def attempts3
  by (simp add: with_block_def bind_def perform_def session_offline_def attempt_body_def
      succeeded_def setup_calls_def)

text \<open>
  Claim C8, as stated, fails. An exception that is neither a Playwright timeout nor a
  \<open>RuntimeError\<close> is not caught by an attempt: a navigation that fails with a network
  error ends the run after one attempt with that error, which names no attempt count. And
  when writing the rows fails, the run fails after the output file has been opened for
  writing and its header written.
\<close>

theorem failed_run_counterexample:
  "fst (main session_offline []) = Inl (OtherError (ustr ''net::ERR_NAME_NOT_RESOLVED'')) \<and>
   gotos (snd (main session_offline [])) = 1 \<and>
   fst (main session_disk_full []) =
     Inl (OtherError (ustr ''[Errno 28] No space left on device'')) \<and>
   file_calls (snd (main session_disk_full [])) =
     [Mkdir (ustr ''output''), OpenWrite (ustr ''output/Workshop&country.csv''),
      WriteHeader [ustr ''Name'', ustr ''Address'', ustr ''Country'', ustr ''Type'',
                   ustr ''Latitude'', ustr ''Longitude''],
      WriteRows (parse_cards [card_montreal]), FileClose]"
  by (simp add: main_offline main_disk_full succeeded_def setup_calls_def wait_calls_def
      OUT_CSV_def CSV_FIELDS_def ustr_def)






theorem always_empty_exhausts_witness:
  "fst (scrape_with_playwright session_flaky_recovery SEARCH_URL 2 70000 []) =
     Inl (RuntimeError (ustr ''Failed after 2 attempts: No cards parsed (empty result).'')) \<and>
   gotos (snd (scrape_with_playwright session_flaky_recovery SEARCH_URL 2 70000 [])) = 2 \<and>
   closes (snd (scrape_with_playwright session_flaky_recovery SEARCH_URL 2 70000 [])) = 1 \<and>
   file_calls (snd (scrape_with_playwright session_flaky_recovery SEARCH_URL 2 70000 [])) = []"
  using always_empty_exhausts [OF flaky_hyps(1) flaky_hyps(2), of SEARCH_URL 2 70000]
  by (simp add: str_int_2 ustr_def)

lemma grace_quiet: "raises session_grace h c = None"
  by (simp add: session_grace_def)

lemma main_grace_run:
  "main session_grace [] =
     (Inr (),
      (succeeded (setup_calls 70000) @
       succeeded (wait_calls SEARCH_URL 70000 @ grace_calls @ [QuerySelectorAll, BrowserClose]) @
       [(PlaywrightStop, None)]) @ succeeded (save_calls (parse_cards [card_montreal])))"
  unfolding main_def
  by (simp add: bind_def scrape_grace_run save_csv_def with_block_def perform_def grace_quiet
      parent_OUT_CSV succeeded_def save_calls_def)

theorem main_outcomes_witness:
  "fst (main session_grace []) = Inr () \<and>
   (\<exists>data lg0. data \<noteq> [] \<and>
      scrape_with_playwright session_grace SEARCH_URL 3 70000 [] = (Inr data, lg0) \<and>
      snd (main session_grace []) = lg0 @ succeeded
          [Mkdir (ustr ''output''), OpenWrite (ustr ''output/Workshop&country.csv''),
           WriteHeader [ustr ''Name'', ustr ''Address'', ustr ''Country'', ustr ''Type'',
                        ustr ''Latitude'', ustr ''Longitude''],
           WriteRows data, FileClose,
           Print (ustr ''Saved '' @ str_int (int (length data)) @
                  ustr '' records to output/Workshop&country.csv'')]) \<and>
   fst (main session_offline []) = Inl (OtherError (ustr ''net::ERR_NAME_NOT_RESOLVED'')) \<and>
   raised_in (OtherError (ustr ''net::ERR_NAME_NOT_RESOLVED'')) (snd (main session_offline [])) \<and>
   file_calls (snd (main session_offline [])) = []"
proof -
  have m: "main session_grace [] = (Inr (), snd (main session_grace []))"
    by (simp add: main_grace_run)
  from main_outcomes [OF m] have a: "\<exists>data lg0. Inr () = (Inr () :: exn + unit) \<and> data \<noteq> [] \<and>
        scrape_with_playwright session_grace SEARCH_URL 3 70000 [] = (Inr data, lg0) \<and>
        snd (main session_grace []) = lg0 @ succeeded
          [Mkdir (ustr ''output''), OpenWrite (ustr ''output/Workshop&country.csv''),
           WriteHeader [ustr ''Name'', ustr ''Address'', ustr ''Country'', ustr ''Type'',
                        ustr ''Latitude'', ustr ''Longitude''],
           WriteRows data, FileClose,
           Print (ustr ''Saved '' @ str_int (int (length data)) @
                  ustr '' records to output/Workshop&country.csv'')]"
    by (elim disjE exE conjE) simp_all
  define lg where "lg = snd (main session_offline [])"
  have off: "main session_offline [] = (Inl (OtherError (ustr ''net::ERR_NAME_NOT_RESOLVED'')), lg)"
    by (simp add: lg_def main_offline)
  from main_outcomes [OF off]
  have b: "raised_in (OtherError (ustr ''net::ERR_NAME_NOT_RESOLVED'')) lg \<and> file_calls lg = []"
    by (elim disjE exE conjE) (simp_all add: scrape_offline ustr_def)
  have c: "fst (main session_offline []) = Inl (OtherError (ustr ''net::ERR_NAME_NOT_RESOLVED''))"
    using off by simp
  have d: "fst (main session_grace []) = Inr ()" using m by (metis fst_conv)
  show ?thesis using a b c d unfolding lg_def by blast
qed

end
